theory Spec2Isabelle
  imports Complex_Main
begin

section \<open>The ABCNN-1 block (src/model/blocks/abcnn1.py)\<close>

text \<open>
  A block is built from three layers handed to the constructor (attention, convolution,
  width pooling) and two layers the constructor creates itself: the all-ap global pooling
  and a 2D dropout with the given rate. Tensors are an abstract type \<open>'t\<close>. The dropout is
  the only random step; its generator state \<open>'r\<close> is passed explicitly, consumed and
  returned, so that two runs with different random states can be compared.
\<close>

record ('t, 'a) block =
  attn :: "'t \<Rightarrow> 't \<Rightarrow> 't \<times> 't"
  conv :: "'t \<Rightarrow> 't"
  pool :: "'t \<Rightarrow> 't"
  ap :: "'t \<Rightarrow> 'a"
  dropout_rate :: real

definition init_block ::
  "('t \<Rightarrow> 'a) \<Rightarrow> ('t \<Rightarrow> 't \<Rightarrow> 't \<times> 't) \<Rightarrow> ('t \<Rightarrow> 't) \<Rightarrow> ('t \<Rightarrow> 't) \<Rightarrow> real \<Rightarrow> ('t, 'a) block" where
  "init_block AllAP attn0 conv0 pool0 rate =
     \<lparr>attn = attn0, conv = conv0, pool = pool0, ap = AllAP, dropout_rate = rate\<rparr>"

definition forward ::
  "(real \<Rightarrow> 'r \<Rightarrow> 't \<Rightarrow> 't \<times> 'r) \<Rightarrow> ('t, 'a) block \<Rightarrow> 'r \<Rightarrow> 't \<Rightarrow> 't \<Rightarrow> ('t \<times> 't \<times> 'a \<times> 'a) \<times> 'r" where
  "forward Dropout2d self r x1 x2 =
     (let (o1, o2) = attn self x1 x2;
          c1 = conv self o1; c2 = conv self o2;
          w1 = pool self c1; w2 = pool self c2;
          (w1', r1) = Dropout2d (dropout_rate self) r w1;
          (w2', r2) = Dropout2d (dropout_rate self) r1 w2;
          a1 = ap self c1; a2 = ap self c2
      in ((w1', w2', a1, a2), r2))"

definition out_w :: "('t \<times> 't \<times> 'a \<times> 'a) \<times> 'r \<Rightarrow> 't \<times> 't" where
  "out_w res = (case res of ((w1, w2, a1, a2), r) \<Rightarrow> (w1, w2))"

definition out_a :: "('t \<times> 't \<times> 'a \<times> 'a) \<times> 'r \<Rightarrow> 'a \<times> 'a" where
  "out_a res = (case res of ((w1, w2, a1, a2), r) \<Rightarrow> (a1, a2))"

subsection \<open>A small concrete block\<close>

text \<open>
  One sentence is a list of reals here. The dropout reads its mask from a stream of keep
  flags: a kept tensor is rescaled by \<open>1 / (1 - p)\<close>, a dropped one is zeroed.
\<close>

definition mask_dropout :: "real \<Rightarrow> bool list \<Rightarrow> real list \<Rightarrow> real list \<times> bool list" where
  "mask_dropout p r t =
     (case r of [] \<Rightarrow> (t, [])
      | keep # r' \<Rightarrow> ((if keep then map (\<lambda>x. x / (1 - p)) t else map (\<lambda>x. 0) t), r'))"

definition toy_x1 :: "real list" where
  "toy_x1 = [1, 2]"

definition toy_x2 :: "real list" where
  "toy_x2 = [3, 5]"

definition toy_block :: "(real list, real) block" where
  "toy_block = init_block sum_list (\<lambda>x1 x2. (x1 @ x2, x2 @ x1)) (map (\<lambda>x. 2 * x)) butlast (1 / 2)"

subsection \<open>Shape contracts of the layers\<close>

text \<open>
  Modelled from the spec: the attention, convolution, width-pooling and all-ap layers are
  not part of the sources at hand; the spec (4.1) and the comments of \<open>forward\<close> give
  their effect on shapes only. On a tensor reduced to its shape, with \<open>w\<close> the
  convolution width and \<open>n\<close> the output size: attention adds the attention feature map as
  a second channel, the wide convolution returns one channel of length \<open>L + w - 1\<close> and
  \<open>n\<close> features, w-ap brings the length back to \<open>L\<close>, and all-ap keeps the batch and
  feature dimensions.
\<close>

definition shape_attn :: "nat list \<Rightarrow> nat list \<Rightarrow> nat list \<times> nat list" where
  "shape_attn s1 s2 =
     (case (s1, s2) of
        ([b, c, l, i], [b', c', l', i']) \<Rightarrow> ([b, c + 1, l, i], [b', c' + 1, l', i'])
      | _ \<Rightarrow> (s1, s2))"

definition shape_conv :: "nat \<Rightarrow> nat \<Rightarrow> nat list \<Rightarrow> nat list" where
  "shape_conv w n s = (case s of [b, c, l, i] \<Rightarrow> [b, 1, l + w - 1, n] | _ \<Rightarrow> s)"

definition shape_pool :: "nat \<Rightarrow> nat list \<Rightarrow> nat list" where
  "shape_pool w s = (case s of [b, c, l, n] \<Rightarrow> [b, c, l + 1 - w, n] | _ \<Rightarrow> s)"

definition shape_allap :: "nat list \<Rightarrow> nat list" where
  "shape_allap s = (case s of [b, c, l, n] \<Rightarrow> [b, n] | _ \<Rightarrow> s)"

definition shape_block :: "nat \<Rightarrow> nat \<Rightarrow> (nat list, nat list) block" where
  "shape_block w n = init_block shape_allap shape_attn (shape_conv w n) (shape_pool w) (1 / 2)"

section \<open>The batch processor and the training loop (train.py)\<close>

subsection \<open>Values, errors and effects\<close>

text \<open>
  Python's floats are modelled by reals: rounding is not part of the model. An uncaught
  exception is the left summand of a result. The calls the code makes on its
  collaborators (optimizer, checkpoint writer, plotter) are recorded as events, in the
  order of the calls; the console reports are not modelled.
\<close>

datatype error = ZeroDivisionError | KeyError string | AttributeError | ValueError

type_synonym results = "(string \<times> real) list"

type_synonym history = "(string \<times> real list) list"

datatype ('m, 'o) event =
    ZeroGrad
  | Backward
  | Step
  | SaveCheckpoint 'm "'o option" history int string
  | GeneratePlots history string

text \<open>
  The objects \<open>process_batches\<close> and \<open>train\<close> may mutate: the model, the optimizer
  (\<open>None\<close> when the caller passes none) and the state of the random generators (the
  shuffling of the loader, the dropout inside the model).
\<close>

record ('m, 'o, 'r) state =
  weights :: 'm
  optimizer :: "'o option"
  rng :: 'r

text \<open>
  The collaborators the code receives or imports: the dataset with its length, the
  shuffling loader (dataset, batch size, number of workers), the model, arg-max over the
  class dimension, the loss function returning one loss per example, the three calls of
  a training step, and the four scalar metrics of the metric library. A batch is a
  feature tensor with the list of its target labels. The field \<open>dataloader\<close> is the
  iteration of a loader that was built: it yields the list of batches and draws its
  shuffling from the random state; calling the model
  reads the weights and the random state (dropout) and leaves the weights as they are;
  the scalar metrics are given functions of the two label lists. The transfer of a batch
  to the accelerator does not change its value and is left out.
\<close>

record ('m, 'o, 'r, 'd, 'f, 's) env =
  ds_len :: "'d \<Rightarrow> nat"
  dataloader :: "'d \<Rightarrow> int \<Rightarrow> int \<Rightarrow> 'r \<Rightarrow> ('f \<times> int list) list \<times> 'r"
  model_call :: "'m \<Rightarrow> 'r \<Rightarrow> 'f \<Rightarrow> 's \<times> 'r"
  argmax :: "'s \<Rightarrow> int list"
  loss_fn :: "'s \<Rightarrow> int list \<Rightarrow> real list"
  zero_grad :: "'o \<Rightarrow> 'm \<Rightarrow> 'm"
  backward :: "'s \<Rightarrow> int list \<Rightarrow> 'm \<Rightarrow> 'm"
  opt_step :: "'o \<Rightarrow> 'm \<Rightarrow> 'o \<times> 'm"
  accuracy_score :: "int list \<Rightarrow> int list \<Rightarrow> real"
  precision_score :: "int list \<Rightarrow> int list \<Rightarrow> real"
  recall_score :: "int list \<Rightarrow> int list \<Rightarrow> real"
  f1_score :: "int list \<Rightarrow> int list \<Rightarrow> real"

subsection \<open>The confusion matrix of the metric library\<close>

text \<open>
  \<open>confusion_matrix(y_true, y_pred, labels)\<close>: entry \<open>(i, j)\<close> counts the examples whose
  true label is the \<open>i\<close>-th of \<open>labels\<close> and whose predicted label is the \<open>j\<close>-th. The
  library rejects label lists of different lengths, an empty \<open>labels\<close>, and a non-empty
  \<open>y_true\<close> that contains none of \<open>labels\<close>; for an empty \<open>y_true\<close> it returns zeros.
\<close>

definition count_pairs :: "int list \<Rightarrow> int list \<Rightarrow> int \<Rightarrow> int \<Rightarrow> nat" where
  "count_pairs y_true y_pred i j = length (filter (\<lambda>(t, p). t = i \<and> p = j) (zip y_true y_pred))"

definition confusion_matrix :: "int list \<Rightarrow> int list \<Rightarrow> int list \<Rightarrow> error + nat list list" where
  "confusion_matrix y_true y_pred labels =
     (if length y_true \<noteq> length y_pred then Inl ValueError
      else if labels = [] then Inl ValueError
      else if y_true = [] then Inr (map (\<lambda>i. map (\<lambda>j. 0) labels) labels)
      else if filter (\<lambda>t. t \<in> set labels) y_true = [] then Inl ValueError
      else Inr (map (\<lambda>i. map (\<lambda>j. count_pairs y_true y_pred i j) labels) labels))"

subsection \<open>process_batches\<close>

text \<open>
  One iteration of the batch loop: forward pass, arg-max, the summed batch loss, and in
  training mode the three optimizer calls. It returns the new state, the batch's
  targets, predictions and loss, and the events of the iteration. Calling a method of a
  missing optimizer raises.
\<close>

definition batch_step ::
  "('m, 'o, 'r, 'd, 'f, 's) env \<Rightarrow> bool \<Rightarrow> ('m, 'o, 'r) state \<Rightarrow> 'f \<times> int list \<Rightarrow>
   error + (('m, 'o, 'r) state \<times> (int list \<times> int list \<times> real) \<times> ('m, 'o) event list)" where
  "batch_step E is_training st batch =
     (case batch of (features, targets) \<Rightarrow>
        (case model_call E (weights st) (rng st) features of (scores, r1) \<Rightarrow>
           (let predictions = argmax E scores;
                batch_loss = sum_list (loss_fn E scores targets)
            in if is_training then
                 (case optimizer st of
                    None \<Rightarrow> Inl AttributeError
                  | Some opt \<Rightarrow>
                      (let m1 = zero_grad E opt (weights st);
                           m2 = backward E scores targets m1
                       in case opt_step E opt m2 of (opt', m3) \<Rightarrow>
                            Inr (\<lparr>weights = m3, optimizer = Some opt', rng = r1\<rparr>,
                                 (targets, predictions, batch_loss),
                                 [ZeroGrad, Backward, Step])))
               else Inr (st\<lparr>rng := r1\<rparr>, (targets, predictions, batch_loss), []))))"

text \<open>
  The loop over the batches, with its accumulators: the state, \<open>total_loss\<close>, \<open>actual\<close>,
  \<open>predicted\<close>, and the events so far.
\<close>

fun run_batches ::
  "('m, 'o, 'r, 'd, 'f, 's) env \<Rightarrow> bool \<Rightarrow> ('f \<times> int list) list \<Rightarrow>
   ('m, 'o, 'r) state \<times> real \<times> int list \<times> int list \<times> ('m, 'o) event list \<Rightarrow>
   error + (('m, 'o, 'r) state \<times> real \<times> int list \<times> int list \<times> ('m, 'o) event list)" where
  "run_batches E is_training [] acc = Inr acc"
| "run_batches E is_training (batch # batches) (st, total_loss, actual, predicted, evs) =
     (case batch_step E is_training st batch of
        Inl e \<Rightarrow> Inl e
      | Inr (st', (targets, predictions, batch_loss), ev) \<Rightarrow>
          run_batches E is_training batches
            (st', total_loss + batch_loss, actual @ targets, predicted @ predictions, evs @ ev))"

text \<open>
  \<open>DataLoader(dataset, batch_size, shuffle=True, num_workers)\<close>: building the loader
  raises \<open>ValueError\<close> for a negative number of workers, for an empty dataset (the
  shuffling sampler wants a positive number of samples) and for a batch size that is not
  positive; otherwise the loader is iterated.
\<close>

definition DataLoader ::
  "('m, 'o, 'r, 'd, 'f, 's) env \<Rightarrow> 'd \<Rightarrow> int \<Rightarrow> int \<Rightarrow> 'r \<Rightarrow>
   error + (('f \<times> int list) list \<times> 'r)" where
  "DataLoader E dataset batch_size num_workers r =
     (if num_workers < 0 then Inl ValueError
      else if ds_len E dataset = 0 then Inl ValueError
      else if batch_size \<le> 0 then Inl ValueError
      else Inr (dataloader E dataset batch_size num_workers r))"

text \<open>
  What \<open>process_batches\<close> returns: in training mode the model, the results and the
  confusion matrix; otherwise the results and the confusion matrix.
\<close>

datatype 'm returned = ModelResultsCm 'm results "nat list list" | ResultsCm results "nat list list"

definition process_batches ::
  "('m, 'o, 'r, 'd, 'f, 's) env \<Rightarrow> ('m, 'o, 'r) state \<Rightarrow> 'd \<Rightarrow> int \<Rightarrow> int \<Rightarrow> bool \<Rightarrow>
   error + ('m returned \<times> ('m, 'o, 'r) state \<times> ('m, 'o) event list)" where
  "process_batches E st dataset batch_size num_workers is_training =
     (case DataLoader E dataset batch_size num_workers (rng st) of
        Inl e \<Rightarrow> Inl e
      | Inr (batches, r0) \<Rightarrow>
        (case run_batches E is_training batches (st\<lparr>rng := r0\<rparr>, 0, [], [], []) of
           Inl e \<Rightarrow> Inl e
         | Inr (st', total_loss, actual, predicted, evs) \<Rightarrow>
             if ds_len E dataset = 0 then Inl ZeroDivisionError
             else
               (let loss = total_loss / real (ds_len E dataset);
                    accuracy = accuracy_score E actual predicted;
                    precision = precision_score E actual predicted;
                    recall = recall_score E actual predicted;
                    f1 = f1_score E actual predicted
                in case confusion_matrix actual predicted [0, 1] of
                     Inl e \<Rightarrow> Inl e
                   | Inr cm \<Rightarrow>
                       (let results = [(''loss'', loss), (''accuracy'', accuracy),
                                       (''precision'', precision), (''recall'', recall),
                                       (''f1'', f1)]
                        in if is_training then Inr (ModelResultsCm (weights st') results cm, st', evs)
                           else Inr (ResultsCm results cm, st', evs)))))"

text \<open>
  The per-batch view of a pass, used to state what the accumulators hold: the list of
  (targets, predictions, batch loss) of the batches, in order, each computed by
  \<open>batch_step\<close> from the state the previous batches left.
\<close>

fun batch_outcomes ::
  "('m, 'o, 'r, 'd, 'f, 's) env \<Rightarrow> bool \<Rightarrow> ('f \<times> int list) list \<Rightarrow> ('m, 'o, 'r) state \<Rightarrow>
   (int list \<times> int list \<times> real) list" where
  "batch_outcomes E is_training [] st = []"
| "batch_outcomes E is_training (batch # batches) st =
     (case batch_step E is_training st batch of
        Inl e \<Rightarrow> []
      | Inr (st', oc, ev) \<Rightarrow> oc # batch_outcomes E is_training batches st')"

subsection \<open>train\<close>

text \<open>
  The configuration dictionary, one optional entry per recognised key, read with
  \<open>config.get(key, default)\<close>.
\<close>

record config =
  batch_size :: "int option"
  start_epoch :: "int option"
  num_epochs :: "int option"
  log_every :: "int option"
  num_workers :: "int option"
  checkpoint_dir :: "string option"

definition dict_get :: "'a option \<Rightarrow> 'a \<Rightarrow> 'a" where
  "dict_get entry dflt = (case entry of None \<Rightarrow> dflt | Some v \<Rightarrow> v)"

text \<open>Decimal rendering of an integer, as \<open>"{}".format(epoch)\<close> gives it.\<close>

definition digit_char :: "nat \<Rightarrow> char" where
  "digit_char d = char_of (48 + d)"

function str_nat :: "nat \<Rightarrow> string" where
  "str_nat n = (if n < 10 then [digit_char n] else str_nat (n div 10) @ [digit_char (n mod 10)])"
  by pat_completeness auto
termination
  by (relation "measure (\<lambda>n. n)") auto

definition str_int :: "int \<Rightarrow> string" where
  "str_int i = (if i < 0 then CHR ''-'' # str_nat (nat (- i)) else str_nat (nat i))"

text \<open>\<open>os.path.join\<close> of two components, with the POSIX separator.\<close>

definition os_path_join :: "string \<Rightarrow> string \<Rightarrow> string" where
  "os_path_join a b =
     (if b \<noteq> [] \<and> hd b = CHR ''/'' then b
      else if a = [] \<or> last a = CHR ''/'' then a @ b
      else a @ ''/'' @ b)"

definition best_path :: "string \<Rightarrow> string" where
  "best_path dir = os_path_join dir ''best_checkpoint''"

definition epoch_path :: "string \<Rightarrow> int \<Rightarrow> string" where
  "epoch_path dir epoch = os_path_join dir (''checkpoint_epoch_'' @ str_int epoch)"

text \<open>
  \<open>history[key].append(val)\<close>: the history is a dictionary of lists, each key holding a
  list of its own; a missing key raises \<open>KeyError\<close>.
\<close>

fun hist_append :: "string \<Rightarrow> real \<Rightarrow> history \<Rightarrow> error + history" where
  "hist_append key v [] = Inl (KeyError key)"
| "hist_append key v ((k, xs) # h) =
     (if k = key then Inr ((k, xs @ [v]) # h)
      else (case hist_append key v h of Inl e \<Rightarrow> Inl e | Inr h' \<Rightarrow> Inr ((k, xs) # h')))"

fun update_history :: "string \<Rightarrow> results \<Rightarrow> history \<Rightarrow> error + history" where
  "update_history prefix [] h = Inr h"
| "update_history prefix ((name, v) # rs) h =
     (case hist_append (prefix @ name) v h of
        Inl e \<Rightarrow> Inl e
      | Inr h' \<Rightarrow> update_history prefix rs h')"

definition lookup :: "results \<Rightarrow> string \<Rightarrow> error + real" where
  "lookup rs key = (case map_of rs key of None \<Rightarrow> Inl (KeyError key) | Some v \<Rightarrow> Inr v)"

text \<open>
  The two passes of one epoch: the training pass, then the validation pass on the state
  the training pass left. Unpacking a result of the wrong arity raises.
\<close>

definition epoch_passes ::
  "('m, 'o, 'r, 'd, 'f, 's) env \<Rightarrow> 'd \<Rightarrow> 'd \<Rightarrow> config \<Rightarrow> ('m, 'o, 'r) state \<Rightarrow>
   error + (('m, 'o, 'r) state \<times> results \<times> results \<times> ('m, 'o) event list)" where
  "epoch_passes E trainset valset cfg st =
     (let bs = dict_get (batch_size cfg) 20; nw = dict_get (num_workers cfg) 4
      in case process_batches E st trainset bs nw True of
           Inl e \<Rightarrow> Inl e
         | Inr (ResultsCm res cm, st1, ev1) \<Rightarrow> Inl ValueError
         | Inr (ModelResultsCm m train_results train_cm, st1, ev1) \<Rightarrow>
             (case process_batches E (st1\<lparr>weights := m\<rparr>) valset bs nw False of
                Inl e \<Rightarrow> Inl e
              | Inr (ModelResultsCm m' res cm, st2, ev2) \<Rightarrow> Inl ValueError
              | Inr (ResultsCm val_results val_cm, st2, ev2) \<Rightarrow>
                  Inr (st2, train_results, val_results, ev1 @ ev2)))"

text \<open>The bookkeeping of one epoch: history, best checkpoint, periodic checkpoint.\<close>

definition best_events ::
  "string \<Rightarrow> ('m, 'o, 'r) state \<Rightarrow> history \<Rightarrow> int \<Rightarrow> real \<Rightarrow> real \<Rightarrow> ('m, 'o) event list" where
  "best_events dir st h epoch f1 best =
     (if f1 > best then [SaveCheckpoint (weights st) (optimizer st) h epoch (best_path dir)] else [])"

definition periodic_events ::
  "string \<Rightarrow> int \<Rightarrow> ('m, 'o, 'r) state \<Rightarrow> history \<Rightarrow> int \<Rightarrow> ('m, 'o) event list" where
  "periodic_events dir every st h epoch =
     (if every \<noteq> 0 \<and> epoch mod every = 0
      then [SaveCheckpoint (weights st) (optimizer st) h epoch (epoch_path dir epoch),
            GeneratePlots h dir]
      else [])"

definition epoch_body ::
  "('m, 'o, 'r, 'd, 'f, 's) env \<Rightarrow> 'd \<Rightarrow> 'd \<Rightarrow> config \<Rightarrow>
   ('m, 'o, 'r) state \<times> history \<times> real \<Rightarrow> int \<Rightarrow>
   error + ((('m, 'o, 'r) state \<times> history \<times> real) \<times> ('m, 'o) event list)" where
  "epoch_body E trainset valset cfg acc epoch =
     (case acc of (st, h, best_val_f1) \<Rightarrow>
        (case epoch_passes E trainset valset cfg st of
           Inl e \<Rightarrow> Inl e
         | Inr (st2, train_results, val_results, ev) \<Rightarrow>
             (case update_history ''train_'' train_results h of
                Inl e \<Rightarrow> Inl e
              | Inr h1 \<Rightarrow>
                  (case update_history ''val_'' val_results h1 of
                     Inl e \<Rightarrow> Inl e
                   | Inr h2 \<Rightarrow>
                       (case lookup val_results ''f1'' of
                          Inl e \<Rightarrow> Inl e
                        | Inr f1 \<Rightarrow>
                            (let dir = dict_get (checkpoint_dir cfg) ''checkpoints'';
                                 every = dict_get (log_every cfg) 5
                             in Inr ((st2, h2, if f1 > best_val_f1 then f1 else best_val_f1),
                                     ev @ best_events dir st2 h2 epoch f1 best_val_f1
                                        @ periodic_events dir every st2 h2 epoch)))))))"

fun train_loop ::
  "('m, 'o, 'r, 'd, 'f, 's) env \<Rightarrow> 'd \<Rightarrow> 'd \<Rightarrow> config \<Rightarrow> int list \<Rightarrow>
   (('m, 'o, 'r) state \<times> history \<times> real) \<times> ('m, 'o) event list \<Rightarrow>
   error + ((('m, 'o, 'r) state \<times> history \<times> real) \<times> ('m, 'o) event list)" where
  "train_loop E trainset valset cfg [] res = Inr res"
| "train_loop E trainset valset cfg (epoch # epochs) (acc, evs) =
     (case epoch_body E trainset valset cfg acc epoch of
        Inl e \<Rightarrow> Inl e
      | Inr (acc', ev) \<Rightarrow> train_loop E trainset valset cfg epochs (acc', evs @ ev))"

definition epoch_range :: "config \<Rightarrow> int list" where
  "epoch_range cfg = [dict_get (start_epoch cfg) 1 .. dict_get (num_epochs cfg) 20]"

text \<open>
  \<open>train\<close> returns the model; the model, optimizer and history it mutated are returned
  with it as the final state and history, together with the events of the run.
\<close>

definition train ::
  "('m, 'o, 'r, 'd, 'f, 's) env \<Rightarrow> ('m, 'o, 'r) state \<Rightarrow> history \<Rightarrow> 'd \<Rightarrow> 'd \<Rightarrow> config \<Rightarrow>
   error + ('m \<times> ('m, 'o, 'r) state \<times> history \<times> ('m, 'o) event list)" where
  "train E st h trainset valset cfg =
     (case train_loop E trainset valset cfg (epoch_range cfg) ((st, h, 0), []) of
        Inl e \<Rightarrow> Inl e
      | Inr ((st', h', best_val_f1), evs) \<Rightarrow> Inr (weights st', st', h', evs))"

subsection \<open>Reading results and events\<close>

definition oc_targets :: "int list \<times> int list \<times> real \<Rightarrow> int list" where
  "oc_targets oc = fst oc"

definition oc_predictions :: "int list \<times> int list \<times> real \<Rightarrow> int list" where
  "oc_predictions oc = fst (snd oc)"

definition oc_loss :: "int list \<times> int list \<times> real \<Rightarrow> real" where
  "oc_loss oc = snd (snd oc)"

fun results_of :: "'m returned \<Rightarrow> results" where
  "results_of (ModelResultsCm m res cm) = res"
| "results_of (ResultsCm res cm) = res"

fun cm_of :: "'m returned \<Rightarrow> nat list list" where
  "cm_of (ModelResultsCm m res cm) = cm"
| "cm_of (ResultsCm res cm) = cm"

fun model_of :: "'m returned \<Rightarrow> 'm option" where
  "model_of (ModelResultsCm m res cm) = Some m"
| "model_of (ResultsCm res cm) = None"

text \<open>The epochs at which a checkpoint was saved under the given path.\<close>

fun save_epoch_at :: "string \<Rightarrow> ('m, 'o) event \<Rightarrow> int list" where
  "save_epoch_at path (SaveCheckpoint m opt h epoch p) = (if p = path then [epoch] else [])"
| "save_epoch_at path ev = []"

definition saved_epochs :: "string \<Rightarrow> ('m, 'o) event list \<Rightarrow> int list" where
  "saved_epochs path evs = concat (map (save_epoch_at path) evs)"

text \<open>
  The periodic events of a run, in order: \<open>Some epoch\<close> for a checkpoint saved under the
  per-epoch name of its own epoch, \<open>None\<close> for a regeneration of the plots.
\<close>

fun is_periodic :: "string \<Rightarrow> ('m, 'o) event \<Rightarrow> bool" where
  "is_periodic dir (SaveCheckpoint m opt h epoch p) = (p = epoch_path dir epoch)"
| "is_periodic dir (GeneratePlots h d) = True"
| "is_periodic dir ev = False"

fun periodic_mark :: "string \<Rightarrow> ('m, 'o) event \<Rightarrow> int option list" where
  "periodic_mark dir (SaveCheckpoint m opt h epoch p) =
     (if p = epoch_path dir epoch then [Some epoch] else [])"
| "periodic_mark dir (GeneratePlots h d) = [None]"
| "periodic_mark dir ev = []"

definition periodic_log :: "string \<Rightarrow> ('m, 'o) event list \<Rightarrow> int option list" where
  "periodic_log dir evs = concat (map (periodic_mark dir) evs)"

text \<open>
  The batches a pass draws, the state in which its loop starts, and its per-batch
  outcomes with the concatenated labels.
\<close>

definition pass_batches ::
  "('m, 'o, 'r, 'd, 'f, 's) env \<Rightarrow> ('m, 'o, 'r) state \<Rightarrow> 'd \<Rightarrow> int \<Rightarrow> int \<Rightarrow> ('f \<times> int list) list" where
  "pass_batches E st dataset bs nw = fst (dataloader E dataset bs nw (rng st))"

definition pass_start ::
  "('m, 'o, 'r, 'd, 'f, 's) env \<Rightarrow> ('m, 'o, 'r) state \<Rightarrow> 'd \<Rightarrow> int \<Rightarrow> int \<Rightarrow> ('m, 'o, 'r) state" where
  "pass_start E st dataset bs nw = st\<lparr>rng := snd (dataloader E dataset bs nw (rng st))\<rparr>"

definition pass_outcomes ::
  "('m, 'o, 'r, 'd, 'f, 's) env \<Rightarrow> ('m, 'o, 'r) state \<Rightarrow> 'd \<Rightarrow> int \<Rightarrow> int \<Rightarrow> bool \<Rightarrow>
   (int list \<times> int list \<times> real) list" where
  "pass_outcomes E st dataset bs nw is_training =
     batch_outcomes E is_training (pass_batches E st dataset bs nw) (pass_start E st dataset bs nw)"

definition pass_actual ::
  "('m, 'o, 'r, 'd, 'f, 's) env \<Rightarrow> ('m, 'o, 'r) state \<Rightarrow> 'd \<Rightarrow> int \<Rightarrow> int \<Rightarrow> bool \<Rightarrow> int list" where
  "pass_actual E st dataset bs nw is_training =
     concat (map oc_targets (pass_outcomes E st dataset bs nw is_training))"

definition pass_predicted ::
  "('m, 'o, 'r, 'd, 'f, 's) env \<Rightarrow> ('m, 'o, 'r) state \<Rightarrow> 'd \<Rightarrow> int \<Rightarrow> int \<Rightarrow> bool \<Rightarrow> int list" where
  "pass_predicted E st dataset bs nw is_training =
     concat (map oc_predictions (pass_outcomes E st dataset bs nw is_training))"

subsection \<open>The rules as the specification words them\<close>

text \<open>
  The running maximum of the validation F1 values seen so far, starting from 0, and the
  epochs whose F1 strictly exceeds the running maximum of the epochs before.
\<close>

definition running_max :: "real list \<Rightarrow> real" where
  "running_max fs = fold max fs 0"

definition best_epochs_spec :: "int list \<Rightarrow> real list \<Rightarrow> int list" where
  "best_epochs_spec epochs fs =
     map (\<lambda>i. epochs ! i) (filter (\<lambda>i. fs ! i > running_max (take i fs)) [0..<length epochs])"

text \<open>
  The same rule as a recursion along the epochs, carrying the best value so far: the
  form in which the loop applies it.
\<close>

fun best_saves :: "int list \<Rightarrow> real list \<Rightarrow> real \<Rightarrow> int list" where
  "best_saves (e # es) (f # fs) best =
     (if f > best then e # best_saves es fs f else best_saves es fs best)"
| "best_saves es fs best = []"

definition periodic_epochs_spec :: "int \<Rightarrow> int list \<Rightarrow> int list" where
  "periodic_epochs_spec every epochs = filter (\<lambda>e. every \<noteq> 0 \<and> every dvd e) epochs"

text \<open>
  The entries one epoch adds to the history: the training results under the prefix
  \<open>train_\<close>, then the validation results under the prefix \<open>val_\<close>.
\<close>

definition prefixed :: "string \<Rightarrow> results \<Rightarrow> results" where
  "prefixed prefix rs = map (\<lambda>(name, v). (prefix @ name, v)) rs"

definition epoch_entries :: "results \<Rightarrow> results \<Rightarrow> results" where
  "epoch_entries train_results val_results =
     prefixed ''train_'' train_results @ prefixed ''val_'' val_results"

definition history_keys :: "string list" where
  "history_keys =
     [''train_loss'', ''train_accuracy'', ''train_precision'', ''train_recall'', ''train_f1'',
      ''val_loss'', ''val_accuracy'', ''val_precision'', ''val_recall'', ''val_f1'']"

definition first_missing :: "history \<Rightarrow> string option" where
  "first_missing h = find (\<lambda>k. map_of h k = None) history_keys"

subsection \<open>A small concrete environment\<close>

text \<open>
  A toy instance of the collaborators, to run the code on. A dataset is a list of
  (feature, label) pairs of integers. The loader rotates the dataset by the random state
  and cuts it into batches. The weights are a counter that every optimizer step
  increments; the model scores an example by its arg-max class directly, the feature plus
  the weights. The loss of an example is \<open>1/2\<close> when it is classified correctly and
  \<open>5/2\<close> otherwise. The metrics are accuracy and the macro averages of the per-class
  precision, recall and F1 (0 where the denominator is 0), taken over the labels that
  occur among the true or the predicted labels.
\<close>

function chunks :: "nat \<Rightarrow> 'a list \<Rightarrow> 'a list list" where
  "chunks n xs = (if n = 0 \<or> xs = [] then [] else take n xs # chunks n (drop n xs))"
  by pat_completeness auto
termination
  by (relation "measure (\<lambda>(n, xs). length xs)") auto

definition toy_loader :: "(int \<times> int) list \<Rightarrow> int \<Rightarrow> int \<Rightarrow> nat \<Rightarrow> (int list \<times> int list) list \<times> nat" where
  "toy_loader ds bs nw r = (map (\<lambda>b. (map fst b, map snd b)) (chunks (nat bs) (rotate r ds)), Suc r)"

definition toy_loss :: "int list \<Rightarrow> int list \<Rightarrow> real list" where
  "toy_loss scores targets = map (\<lambda>(s, t). if s = t then 1 / 2 else 5 / 2) (zip scores targets)"

definition toy_accuracy :: "int list \<Rightarrow> int list \<Rightarrow> real" where
  "toy_accuracy a p =
     (if a = [] then 0 else real (length (filter (\<lambda>(t, q). t = q) (zip a p))) / real (length a))"

definition ratio :: "nat \<Rightarrow> nat \<Rightarrow> real" where
  "ratio k n = (if n = 0 then 0 else real k / real n)"

definition class_precision :: "int list \<Rightarrow> int list \<Rightarrow> int \<Rightarrow> real" where
  "class_precision a p c = ratio (count_pairs a p c c) (length (filter (\<lambda>q. q = c) p))"

definition class_recall :: "int list \<Rightarrow> int list \<Rightarrow> int \<Rightarrow> real" where
  "class_recall a p c = ratio (count_pairs a p c c) (length (filter (\<lambda>t. t = c) a))"

definition class_f1 :: "int list \<Rightarrow> int list \<Rightarrow> int \<Rightarrow> real" where
  "class_f1 a p c =
     ratio (2 * count_pairs a p c c)
       (length (filter (\<lambda>q. q = c) p) + length (filter (\<lambda>t. t = c) a))"

definition toy_macro :: "(int list \<Rightarrow> int list \<Rightarrow> int \<Rightarrow> real) \<Rightarrow> int list \<Rightarrow> int list \<Rightarrow> real" where
  "toy_macro metric a p =
     (let labels = remdups (a @ p)
      in if labels = [] then 0 else sum_list (map (metric a p) labels) / real (length labels))"

definition toy_env :: "(nat, nat, nat, (int \<times> int) list, int list, int list) env" where
  "toy_env =
     \<lparr>ds_len = length,
      dataloader = toy_loader,
      model_call = (\<lambda>m r xs. (map (\<lambda>x. x + int m) xs, r)),
      argmax = (\<lambda>scores. scores),
      loss_fn = toy_loss,
      zero_grad = (\<lambda>opt m. m),
      backward = (\<lambda>scores targets m. m),
      opt_step = (\<lambda>opt m. (Suc opt, Suc m)),
      accuracy_score = toy_accuracy,
      precision_score = toy_macro class_precision,
      recall_score = toy_macro class_recall,
      f1_score = toy_macro class_f1\<rparr>"

definition toy_state :: "(nat, nat, nat) state" where
  "toy_state = \<lparr>weights = 0, optimizer = Some 0, rng = 0\<rparr>"

text \<open>The configuration with no entry: every option takes its default.\<close>

definition default_config :: config where
  "default_config = \<lparr>batch_size = None, start_epoch = None, num_epochs = None, log_every = None,
     num_workers = None, checkpoint_dir = None\<rparr>"

definition empty_history :: history where
  "empty_history = map (\<lambda>k. (k, [])) history_keys"

text \<open>
  The same environment with a scripted F1: the value depends on the first predicted
  label only, so that a validation set of one example with feature 0 yields the F1
  sequence 0.3, 0.5, 0.4, 0.6 over the first four epochs of a run with one training batch
  per epoch.
\<close>

definition scripted_f1 :: "int list \<Rightarrow> int list \<Rightarrow> real" where
  "scripted_f1 a p =
     (if p = [1] then 3 / 10 else if p = [2] then 5 / 10 else if p = [3] then 4 / 10
      else if p = [4] then 6 / 10 else 0)"

definition scripted_env :: "(nat, nat, nat, (int \<times> int) list, int list, int list) env" where
  "scripted_env = toy_env\<lparr>f1_score := scripted_f1\<rparr>"

section \<open>Properties of the block\<close>

lemma forward_out_a:
  "out_a (forward D self r x1 x2) =
     (ap self (conv self (fst (attn self x1 x2))), ap self (conv self (snd (attn self x1 x2))))"
  by (simp add: forward_def out_a_def Let_def split: prod.splits)

text \<open>
  C1. The global-pooled outputs \<open>a1, a2\<close> do not depend on the dropout: whatever the
  random state (and whatever the dropout function), the pair \<open>(a1, a2)\<close> is the all-ap
  pooling of the convolution outputs \<open>c1, c2\<close>, so two runs on the same inputs agree on it.
  The pair \<open>(w1, w2)\<close> can differ between two runs: on the small concrete block, the run
  whose mask keeps both tensors and the run whose mask drops the first give different
  \<open>w1\<close> and the same \<open>(a1, a2)\<close>.
\<close>

theorem forward_a_invariant_to_dropout:
  "out_a (forward D self r x1 x2) = out_a (forward D' self r' x1 x2)
   \<and> out_a (forward D self r x1 x2) =
       (ap self (conv self (fst (attn self x1 x2))), ap self (conv self (snd (attn self x1 x2))))
   \<and> out_w (forward mask_dropout toy_block [True, True] toy_x1 toy_x2)
       \<noteq> out_w (forward mask_dropout toy_block [False, True] toy_x1 toy_x2)
   \<and> out_a (forward mask_dropout toy_block [True, True] toy_x1 toy_x2)
       = out_a (forward mask_dropout toy_block [False, True] toy_x1 toy_x2)"
proof -
  have a: "out_a (forward D self r x1 x2) = out_a (forward D' self r' x1 x2)"
    by (simp only: forward_out_a)
  have w: "out_w (forward mask_dropout toy_block [True, True] toy_x1 toy_x2)
       \<noteq> out_w (forward mask_dropout toy_block [False, True] toy_x1 toy_x2)"
    by (simp add: forward_def out_w_def toy_block_def init_block_def mask_dropout_def
        toy_x1_def toy_x2_def)
  show ?thesis
    using a w by (simp add: forward_out_a)
qed

text \<open>
  C4. Shapes through the block. \<open>shape\<close> reads the shape of a tensor, \<open>vshape\<close> that of
  a pooled vector. When attention maps two inputs of shape \<open>(b, 1, L, C)\<close> to outputs of
  shape \<open>(b, 2, L, C)\<close>, the convolution maps these to \<open>(b, 1, L + w - 1, n)\<close>, w-ap maps
  that to \<open>(b, 1, L, n)\<close>, all-ap maps it to \<open>(b, n)\<close> and dropout keeps shapes, then for
  inputs \<open>x1, x2\<close> of shape \<open>(b, 1, L, C)\<close> the block returns \<open>w1, w2\<close> of shape
  \<open>(b, 1, L, n)\<close> and \<open>a1, a2\<close> of shape \<open>(b, n)\<close>: the length \<open>L\<close> is preserved.
\<close>

theorem forward_shapes:
  assumes x1: "shape x1 = [b, 1, L, C]"
    and x2: "shape x2 = [b, 1, L, C]"
    and att: "\<And>u v. shape u = [b, 1, L, C] \<Longrightarrow> shape v = [b, 1, L, C] \<Longrightarrow>
               shape (fst (attn self u v)) = [b, 2, L, C] \<and> shape (snd (attn self u v)) = [b, 2, L, C]"
    and cnv: "\<And>u. shape u = [b, 2, L, C] \<Longrightarrow> shape (conv self u) = [b, 1, L + w - 1, n]"
    and wap: "\<And>c. shape c = [b, 1, L + w - 1, n] \<Longrightarrow> shape (pool self c) = [b, 1, L, n]"
    and aap: "\<And>c. shape c = [b, 1, L + w - 1, n] \<Longrightarrow> vshape (ap self c) = [b, n]"
    and drp: "\<And>p r t. shape (fst (D p r t)) = shape t"
  shows "case forward D self r x1 x2 of
           ((w1, w2, a1, a2), r') \<Rightarrow>
             shape w1 = [b, 1, L, n] \<and> shape w2 = [b, 1, L, n] \<and>
             vshape a1 = [b, n] \<and> vshape a2 = [b, n]"
proof -
  obtain o1 o2 where o: "attn self x1 x2 = (o1, o2)"
    by (cases "attn self x1 x2")
  from att [OF x1 x2] o have so: "shape o1 = [b, 2, L, C]" "shape o2 = [b, 2, L, C]"
    by simp_all
  have sc: "shape (conv self o1) = [b, 1, L + w - 1, n]" "shape (conv self o2) = [b, 1, L + w - 1, n]"
    using so cnv by blast+
  have sw: "shape (pool self (conv self o1)) = [b, 1, L, n]"
    "shape (pool self (conv self o2)) = [b, 1, L, n]"
    using sc wap by blast+
  have sa: "vshape (ap self (conv self o1)) = [b, n]" "vshape (ap self (conv self o2)) = [b, n]"
    using sc aap by blast+
  obtain w1' r1 where d1: "D (dropout_rate self) r (pool self (conv self o1)) = (w1', r1)"
    by (cases "D (dropout_rate self) r (pool self (conv self o1))")
  obtain w2' r2 where d2: "D (dropout_rate self) r1 (pool self (conv self o2)) = (w2', r2)"
    by (cases "D (dropout_rate self) r1 (pool self (conv self o2))")
  have "shape w1' = [b, 1, L, n]"
    using drp [of "dropout_rate self" r "pool self (conv self o1)"] d1 sw by simp
  moreover have "shape w2' = [b, 1, L, n]"
    using drp [of "dropout_rate self" r1 "pool self (conv self o2)"] d2 sw by simp
  ultimately show ?thesis
    using sa by (simp add: forward_def o d1 d2)
qed

theorem forward_shapes_witness:
  "case forward (\<lambda>p r t. (t, Suc r)) (shape_block 3 4) (0::nat) [2, 1, 5, 3] [2, 1, 5, 3] of
     ((w1, w2, a1, a2), r') \<Rightarrow>
       w1 = [2, 1, 5, 4] \<and> w2 = [2, 1, 5, 4] \<and> a1 = [2, 4] \<and> a2 = [2, 4]"
proof -
  have att: "\<And>u v. u = [2, 1, 5, 3] \<Longrightarrow> v = [2, 1, 5, 3] \<Longrightarrow>
      fst (attn (shape_block 3 4) u v) = [2, 2, 5, 3] \<and> snd (attn (shape_block 3 4) u v) = [2, 2, 5, 3]"
    by (simp add: shape_block_def init_block_def shape_attn_def)
  have cnv: "\<And>u. u = [2, 2, 5, 3] \<Longrightarrow> conv (shape_block 3 4) u = [2, 1, 5 + 3 - 1, 4]"
    by (simp add: shape_block_def init_block_def shape_conv_def)
  have wap: "\<And>c. c = [2, 1, 5 + 3 - 1, 4] \<Longrightarrow> pool (shape_block 3 4) c = [2, 1, 5, 4]"
    by (simp add: shape_block_def init_block_def shape_pool_def)
  have aap: "\<And>c. c = [2, 1, 5 + 3 - 1, 4] \<Longrightarrow> ap (shape_block 3 4) c = [2, 4]"
    by (simp add: shape_block_def init_block_def shape_allap_def)
  have drp: "\<And>(p::real) (r::nat) (t::nat list). fst (t, Suc r) = t"
    by simp
  show ?thesis
    using forward_shapes [of "\<lambda>s. s" "[2, 1, 5, 3]" 2 5 3 "[2, 1, 5, 3]" "shape_block 3 4" 3 4
        "\<lambda>s. s" "\<lambda>p r t. (t, Suc r)" 0, OF refl refl att cnv wap aap drp]
    by simp
qed

section \<open>Properties of process_batches\<close>

lemma run_batches_acc:
  "run_batches E tr bs (st, tot, a, p, evs) = Inr (st', tot', a', p', evs') \<Longrightarrow>
   tot' = tot + sum_list (map oc_loss (batch_outcomes E tr bs st)) \<and>
   a' = a @ concat (map oc_targets (batch_outcomes E tr bs st)) \<and>
   p' = p @ concat (map oc_predictions (batch_outcomes E tr bs st)) \<and>
   map oc_targets (batch_outcomes E tr bs st) = map snd bs \<and>
   evs' = evs @ (if tr then concat (map (\<lambda>b. [ZeroGrad, Backward, Step]) bs) else []) \<and>
   (\<not> tr \<longrightarrow> weights st' = weights st \<and> optimizer st' = optimizer st)"
proof (induction bs arbitrary: st tot a p evs)
  case Nil
  then show ?case by simp
next
  case (Cons b bs)
  from Cons.prems obtain st1 ts ps bl ev where
    step: "batch_step E tr st b = Inr (st1, (ts, ps, bl), ev)"
    and rest: "run_batches E tr bs (st1, tot + bl, a @ ts, p @ ps, evs @ ev) = Inr (st', tot', a', p', evs')"
    by (auto split: sum.splits prod.splits)
  from step have ev: "ev = (if tr then [ZeroGrad, Backward, Step] else [])"
    and ts: "ts = snd b"
    and fr: "\<not> tr \<longrightarrow> weights st1 = weights st \<and> optimizer st1 = optimizer st"
    by (auto simp: batch_step_def Let_def split: prod.splits if_splits option.splits)
  show ?case
    using Cons.IH [OF rest] step ev ts fr
    by (simp add: oc_targets_def oc_predictions_def oc_loss_def)
qed

lemma run_batches_returns:
  "(tr \<longrightarrow> optimizer st \<noteq> None \<or> bs = []) \<Longrightarrow> \<exists>res. run_batches E tr bs (st, tot, a, p, evs) = Inr res"
proof (induction bs arbitrary: st tot a p evs)
  case Nil
  then show ?case by simp
next
  case (Cons b bs)
  obtain st1 oc ev where step: "batch_step E tr st b = Inr (st1, oc, ev)"
    and opt: "tr \<longrightarrow> optimizer st1 \<noteq> None"
    using Cons.prems
    by (cases b; cases "model_call E (weights st) (rng st) (fst b)"; cases tr;
        cases "optimizer st"; cases "opt_step E (the (optimizer st))
          (backward E (fst (model_call E (weights st) (rng st) (fst b))) (snd b)
             (zero_grad E (the (optimizer st)) (weights st)))")
      (auto simp: batch_step_def Let_def)
  obtain ts ps bl where oc: "oc = (ts, ps, bl)" by (cases oc)
  from opt have "tr \<longrightarrow> optimizer st1 \<noteq> None \<or> bs = []" by simp
  from Cons.IH [OF this] show ?case
    by (simp add: step oc)
qed

lemma process_batches_Inr:
  assumes "process_batches E st ds bs nw tr = Inr (ret, st', evs)"
  shows "ds_len E ds \<noteq> 0"
    and "results_of ret =
          [(''loss'', sum_list (map oc_loss (pass_outcomes E st ds bs nw tr)) / real (ds_len E ds)),
           (''accuracy'', accuracy_score E (pass_actual E st ds bs nw tr) (pass_predicted E st ds bs nw tr)),
           (''precision'', precision_score E (pass_actual E st ds bs nw tr) (pass_predicted E st ds bs nw tr)),
           (''recall'', recall_score E (pass_actual E st ds bs nw tr) (pass_predicted E st ds bs nw tr)),
           (''f1'', f1_score E (pass_actual E st ds bs nw tr) (pass_predicted E st ds bs nw tr))]"
    and "confusion_matrix (pass_actual E st ds bs nw tr) (pass_predicted E st ds bs nw tr) [0, 1] = Inr (cm_of ret)"
    and "model_of ret = (if tr then Some (weights st') else None)"
    and "evs = (if tr then concat (map (\<lambda>b. [ZeroGrad, Backward, Step]) (pass_batches E st ds bs nw)) else [])"
    and "\<not> tr \<Longrightarrow> weights st' = weights st \<and> optimizer st' = optimizer st"
    and "pass_actual E st ds bs nw tr = concat (map snd (pass_batches E st ds bs nw))"
    and "0 < bs \<and> 0 \<le> nw"
proof -
  from assms have valid: "\<not> nw < 0" "ds_len E ds \<noteq> 0" "\<not> bs \<le> 0"
    by (auto simp: process_batches_def DataLoader_def split: if_splits)
  then show "0 < bs \<and> 0 \<le> nw" by simp
  obtain batches r0 where dl0: "dataloader E ds bs nw (rng st) = (batches, r0)"
    by (cases "dataloader E ds bs nw (rng st)")
  have dl: "DataLoader E ds bs nw (rng st) = Inr (batches, r0)"
    using valid dl0 by (simp add: DataLoader_def)
  from assms dl obtain tot a p where
    run: "run_batches E tr batches (st\<lparr>rng := r0\<rparr>, 0, [], [], []) = Inr (st', tot, a, p, evs)"
    by (auto simp: process_batches_def Let_def split: sum.splits if_splits)
  note acc = run_batches_acc [OF run]
  have pb: "pass_batches E st ds bs nw = batches" "pass_start E st ds bs nw = st\<lparr>rng := r0\<rparr>"
    by (simp_all add: pass_batches_def pass_start_def dl0)
  have a: "a = pass_actual E st ds bs nw tr" and p: "p = pass_predicted E st ds bs nw tr"
    and tot: "tot = sum_list (map oc_loss (pass_outcomes E st ds bs nw tr))"
    using acc by (simp_all add: pass_actual_def pass_predicted_def pass_outcomes_def pb)
  show "ds_len E ds \<noteq> 0"
    using assms by (auto simp: process_batches_def dl run Let_def split: if_splits)
  then have nz: "ds_len E ds \<noteq> 0" .
  from assms nz obtain cm where cm: "confusion_matrix a p [0, 1] = Inr cm"
    by (auto simp: process_batches_def dl run Let_def split: sum.splits)
  have ret: "ret = (if tr then ModelResultsCm (weights st')
          [(''loss'', tot / real (ds_len E ds)), (''accuracy'', accuracy_score E a p),
           (''precision'', precision_score E a p), (''recall'', recall_score E a p),
           (''f1'', f1_score E a p)] cm
        else ResultsCm
          [(''loss'', tot / real (ds_len E ds)), (''accuracy'', accuracy_score E a p),
           (''precision'', precision_score E a p), (''recall'', recall_score E a p),
           (''f1'', f1_score E a p)] cm)"
    using assms nz by (simp add: process_batches_def dl run Let_def cm split: if_splits)
  show "results_of ret =
          [(''loss'', sum_list (map oc_loss (pass_outcomes E st ds bs nw tr)) / real (ds_len E ds)),
           (''accuracy'', accuracy_score E (pass_actual E st ds bs nw tr) (pass_predicted E st ds bs nw tr)),
           (''precision'', precision_score E (pass_actual E st ds bs nw tr) (pass_predicted E st ds bs nw tr)),
           (''recall'', recall_score E (pass_actual E st ds bs nw tr) (pass_predicted E st ds bs nw tr)),
           (''f1'', f1_score E (pass_actual E st ds bs nw tr) (pass_predicted E st ds bs nw tr))]"
    using ret a p tot by simp
  show "confusion_matrix (pass_actual E st ds bs nw tr) (pass_predicted E st ds bs nw tr) [0, 1] = Inr (cm_of ret)"
    using ret cm a p by simp
  show "model_of ret = (if tr then Some (weights st') else None)"
    using ret by simp
  show "evs = (if tr then concat (map (\<lambda>b. [ZeroGrad, Backward, Step]) (pass_batches E st ds bs nw)) else [])"
    using acc pb by simp
  show "\<not> tr \<Longrightarrow> weights st' = weights st \<and> optimizer st' = optimizer st"
    using acc by simp
  show "pass_actual E st ds bs nw tr = concat (map snd (pass_batches E st ds bs nw))"
    using acc pb by (simp add: pass_actual_def pass_outcomes_def)
qed

lemmas toy_defs = toy_env_def toy_state_def toy_loader_def DataLoader_def
  batch_step_def toy_loss_def confusion_matrix_def count_pairs_def toy_accuracy_def
  toy_macro_def class_f1_def class_precision_def class_recall_def ratio_def

lemma count_pairs_absent_true: "i \<notin> set a \<Longrightarrow> count_pairs a p i j = 0"
  by (auto simp: count_pairs_def filter_empty_conv dest: set_zip_leftD)

lemma count_pairs_absent_pred: "j \<notin> set p \<Longrightarrow> count_pairs a p i j = 0"
  by (auto simp: count_pairs_def filter_empty_conv dest: set_zip_rightD)

lemma confusion_matrix_01:
  "confusion_matrix a p [0, 1] = Inr cm \<Longrightarrow>
   cm = [[count_pairs a p 0 0, count_pairs a p 0 1], [count_pairs a p 1 0, count_pairs a p 1 1]]"
  by (auto simp: confusion_matrix_def count_pairs_def split: if_splits)

lemma confusion_matrix_returns:
  "length a = length p \<Longrightarrow> a = [] \<or> 0 \<in> set a \<or> 1 \<in> set a \<Longrightarrow>
   \<exists>cm. confusion_matrix a p [0, 1] = Inr cm"
  by (auto simp: confusion_matrix_def filter_empty_conv)

lemma process_batches_returns:
  assumes opt: "tr \<longrightarrow> optimizer st \<noteq> None"
    and args: "0 < bs" "0 \<le> nw"
    and nz: "ds_len E ds \<noteq> 0"
    and len: "length (pass_actual E st ds bs nw tr) = length (pass_predicted E st ds bs nw tr)"
    and lab: "pass_actual E st ds bs nw tr = [] \<or> 0 \<in> set (pass_actual E st ds bs nw tr)
              \<or> 1 \<in> set (pass_actual E st ds bs nw tr)"
  shows "\<exists>ret st' evs. process_batches E st ds bs nw tr = Inr (ret, st', evs)"
proof -
  obtain batches r0 where dl0: "dataloader E ds bs nw (rng st) = (batches, r0)"
    by (cases "dataloader E ds bs nw (rng st)")
  have dl: "DataLoader E ds bs nw (rng st) = Inr (batches, r0)"
    using args nz dl0 by (simp add: DataLoader_def)
  have "tr \<longrightarrow> optimizer (st\<lparr>rng := r0\<rparr>) \<noteq> None \<or> batches = []"
    using opt by simp
  from run_batches_returns [OF this] obtain st' tot a p evs where
    run: "run_batches E tr batches (st\<lparr>rng := r0\<rparr>, 0, [], [], []) = Inr (st', tot, a, p, evs)"
    by (metis prod_cases5)
  note acc = run_batches_acc [OF run]
  have a: "a = pass_actual E st ds bs nw tr" and p: "p = pass_predicted E st ds bs nw tr"
    using acc by (simp_all add: pass_actual_def pass_predicted_def pass_outcomes_def
        pass_batches_def pass_start_def dl0)
  from confusion_matrix_returns [of a p] len lab a p
  obtain cm where "confusion_matrix a p [0, 1] = Inr cm" by auto
  then show ?thesis
    using nz by (simp add: process_batches_def dl run Let_def)
qed

text \<open>
  C3. Whenever a pass returns, the accumulated true labels are the concatenation of the
  targets of all its batches, the accumulated predictions the concatenation of the
  per-batch arg-max predictions, and the results hold the pass loss followed by accuracy,
  macro precision, macro recall and macro F1, each the library metric applied once to
  these two concatenated lists. In particular the reported F1 is the library's macro F1
  of the concatenated labels.
\<close>

theorem process_batches_metrics_over_concatenation:
  "process_batches E st ds bs nw tr = Inr (ret, st', evs) \<Longrightarrow>
   pass_actual E st ds bs nw tr = concat (map snd (pass_batches E st ds bs nw)) \<and>
   pass_predicted E st ds bs nw tr = concat (map oc_predictions (pass_outcomes E st ds bs nw tr)) \<and>
   results_of ret =
     [(''loss'', sum_list (map oc_loss (pass_outcomes E st ds bs nw tr)) / real (ds_len E ds)),
      (''accuracy'', accuracy_score E (pass_actual E st ds bs nw tr) (pass_predicted E st ds bs nw tr)),
      (''precision'', precision_score E (pass_actual E st ds bs nw tr) (pass_predicted E st ds bs nw tr)),
      (''recall'', recall_score E (pass_actual E st ds bs nw tr) (pass_predicted E st ds bs nw tr)),
      (''f1'', f1_score E (pass_actual E st ds bs nw tr) (pass_predicted E st ds bs nw tr))] \<and>
   lookup (results_of ret) ''f1'' =
     Inr (f1_score E (pass_actual E st ds bs nw tr) (pass_predicted E st ds bs nw tr))"
  using process_batches_Inr(2,7) [of E st ds bs nw tr ret st' evs]
  by (simp add: pass_predicted_def lookup_def)

theorem process_batches_metrics_over_concatenation_witness:
  "\<exists>ret st' evs.
     process_batches toy_env toy_state [(0, 0), (0, 1), (1, 1), (1, 1)] 2 4 False = Inr (ret, st', evs) \<and>
     pass_outcomes toy_env toy_state [(0, 0), (0, 1), (1, 1), (1, 1)] 2 4 False =
       [([0, 1], [0, 0], 3), ([1, 1], [1, 1], 1)] \<and>
     lookup (results_of ret) ''f1'' = Inr (toy_macro class_f1 [0, 1, 1, 1] [0, 0, 1, 1]) \<and>
     toy_macro class_f1 [0, 1, 1, 1] [0, 0, 1, 1] = 11 / 15 \<and>
     (toy_macro class_f1 [0, 1] [0, 0] + toy_macro class_f1 [1, 1] [1, 1]) / 2 = 2 / 3"
proof -
  have run: "process_batches toy_env toy_state [(0, 0), (0, 1), (1, 1), (1, 1)] 2 4 False =
      Inr (ResultsCm [(''loss'', 1), (''accuracy'', 3 / 4), (''precision'', 3 / 4),
                      (''recall'', 5 / 6), (''f1'', 11 / 15)] [[1, 0], [1, 2]],
           \<lparr>weights = 0, optimizer = Some 0, rng = 1\<rparr>, [])"
    by code_simp
  have ocs: "pass_outcomes toy_env toy_state [(0, 0), (0, 1), (1, 1), (1, 1)] 2 4 False =
       [([0, 1], [0, 0], 3), ([1, 1], [1, 1], 1)]"
    by code_simp
  have f1: "f1_score toy_env = toy_macro class_f1"
    by (simp add: toy_env_def)
  have lab: "pass_actual toy_env toy_state [(0, 0), (0, 1), (1, 1), (1, 1)] 2 4 False = [0, 1, 1, 1]"
    "pass_predicted toy_env toy_state [(0, 0), (0, 1), (1, 1), (1, 1)] 2 4 False = [0, 0, 1, 1]"
    by (simp_all add: pass_actual_def pass_predicted_def ocs oc_targets_def oc_predictions_def)
  have vals: "toy_macro class_f1 [0, 1, 1, 1] [0, 0, 1, 1] = 11 / 15"
    "(toy_macro class_f1 [0, 1] [0, 0] + toy_macro class_f1 [1, 1] [1, 1]) / 2 = 2 / 3"
    by code_simp+
  show ?thesis
    using process_batches_metrics_over_concatenation [OF run] ocs vals
    by (simp add: run f1 lab)
qed

text \<open>
  C6. The confusion matrix of every pass that returns is the 2x2 table of the counts of
  (true, predicted) pairs over the labels 0 and 1, in this order. The row of a label
  absent from the true labels is zero, and the column of a label absent from the
  predictions is zero. A pass returns whenever the optimizer is there in training mode,
  the batch size is positive, the number of workers is not negative, the dataset is not
  empty, the model gives one prediction per example, and the true labels are empty or
  contain 0 or 1.
\<close>

theorem confusion_matrix_two_by_two:
  "(process_batches E st ds bs nw tr = Inr (ret, st', evs) \<longrightarrow>
      cm_of ret =
        [[count_pairs (pass_actual E st ds bs nw tr) (pass_predicted E st ds bs nw tr) 0 0,
          count_pairs (pass_actual E st ds bs nw tr) (pass_predicted E st ds bs nw tr) 0 1],
         [count_pairs (pass_actual E st ds bs nw tr) (pass_predicted E st ds bs nw tr) 1 0,
          count_pairs (pass_actual E st ds bs nw tr) (pass_predicted E st ds bs nw tr) 1 1]] \<and>
      length (cm_of ret) = 2 \<and> list_all (\<lambda>row. length row = 2) (cm_of ret) \<and>
      (1 \<notin> set (pass_actual E st ds bs nw tr) \<longrightarrow> cm_of ret ! 1 = [0, 0]) \<and>
      (1 \<notin> set (pass_predicted E st ds bs nw tr) \<longrightarrow> map (\<lambda>row. row ! 1) (cm_of ret) = [0, 0]) \<and>
      (0 \<notin> set (pass_actual E st ds bs nw tr) \<longrightarrow> cm_of ret ! 0 = [0, 0]) \<and>
      (0 \<notin> set (pass_predicted E st ds bs nw tr) \<longrightarrow> map (\<lambda>row. row ! 0) (cm_of ret) = [0, 0])) \<and>
   ((tr \<longrightarrow> optimizer st \<noteq> None) \<and> 0 < bs \<and> 0 \<le> nw \<and> ds_len E ds \<noteq> 0 \<and>
    length (pass_actual E st ds bs nw tr) = length (pass_predicted E st ds bs nw tr) \<and>
    (pass_actual E st ds bs nw tr = [] \<or> 0 \<in> set (pass_actual E st ds bs nw tr)
       \<or> 1 \<in> set (pass_actual E st ds bs nw tr)) \<longrightarrow>
    (\<exists>ret st' evs. process_batches E st ds bs nw tr = Inr (ret, st', evs)))"
proof (intro conjI impI)
  assume run: "process_batches E st ds bs nw tr = Inr (ret, st', evs)"
  show cm: "cm_of ret =
        [[count_pairs (pass_actual E st ds bs nw tr) (pass_predicted E st ds bs nw tr) 0 0,
          count_pairs (pass_actual E st ds bs nw tr) (pass_predicted E st ds bs nw tr) 0 1],
         [count_pairs (pass_actual E st ds bs nw tr) (pass_predicted E st ds bs nw tr) 1 0,
          count_pairs (pass_actual E st ds bs nw tr) (pass_predicted E st ds bs nw tr) 1 1]]"
    using confusion_matrix_01 [OF process_batches_Inr(3) [OF run]] .
  show "length (cm_of ret) = 2" by (simp add: cm)
  show "list_all (\<lambda>row. length row = 2) (cm_of ret)" by (simp add: cm)
  show "cm_of ret ! 1 = [0, 0]" if "1 \<notin> set (pass_actual E st ds bs nw tr)"
    using that by (simp add: cm count_pairs_absent_true)
  show "map (\<lambda>row. row ! 1) (cm_of ret) = [0, 0]" if "1 \<notin> set (pass_predicted E st ds bs nw tr)"
    using that by (simp add: cm count_pairs_absent_pred)
  show "cm_of ret ! 0 = [0, 0]" if "0 \<notin> set (pass_actual E st ds bs nw tr)"
    using that by (simp add: cm count_pairs_absent_true)
  show "map (\<lambda>row. row ! 0) (cm_of ret) = [0, 0]" if "0 \<notin> set (pass_predicted E st ds bs nw tr)"
    using that by (simp add: cm count_pairs_absent_pred)
next
  assume "(tr \<longrightarrow> optimizer st \<noteq> None) \<and> 0 < bs \<and> 0 \<le> nw \<and> ds_len E ds \<noteq> 0 \<and>
    length (pass_actual E st ds bs nw tr) = length (pass_predicted E st ds bs nw tr) \<and>
    (pass_actual E st ds bs nw tr = [] \<or> 0 \<in> set (pass_actual E st ds bs nw tr)
       \<or> 1 \<in> set (pass_actual E st ds bs nw tr))"
  then show "\<exists>ret st' evs. process_batches E st ds bs nw tr = Inr (ret, st', evs)"
    using process_batches_returns [of tr st bs nw E ds] by blast
qed

theorem confusion_matrix_two_by_two_witness:
  "\<exists>ret st' evs.
     process_batches toy_env toy_state [(0, 0), (0, 0), (0, 0)] 2 4 False = Inr (ret, st', evs) \<and>
     pass_actual toy_env toy_state [(0, 0), (0, 0), (0, 0)] 2 4 False = [0, 0, 0] \<and>
     pass_predicted toy_env toy_state [(0, 0), (0, 0), (0, 0)] 2 4 False = [0, 0, 0] \<and>
     cm_of ret = [[3, 0], [0, 0]] \<and> cm_of ret ! 1 = [0, 0] \<and>
     map (\<lambda>row. row ! 1) (cm_of ret) = [0, 0]"
proof -
  have ocs: "pass_outcomes toy_env toy_state [(0, 0), (0, 0), (0, 0)] 2 4 False =
       [([0, 0], [0, 0], 1), ([0], [0], 1 / 2)]"
    by (simp add: pass_outcomes_def pass_batches_def pass_start_def toy_defs)
  have lab: "pass_actual toy_env toy_state [(0, 0), (0, 0), (0, 0)] 2 4 False = [0, 0, 0]"
    "pass_predicted toy_env toy_state [(0, 0), (0, 0), (0, 0)] 2 4 False = [0, 0, 0]"
    by (simp_all add: pass_actual_def pass_predicted_def ocs oc_targets_def oc_predictions_def)
  have len: "ds_len toy_env [(0, 0), (0, 0), (0, 0)] = 3"
    by (simp add: toy_env_def)
  have pre: "(False \<longrightarrow> optimizer toy_state \<noteq> None) \<and> (0::int) < 2 \<and> (0::int) \<le> 4 \<and>
    ds_len toy_env [(0, 0), (0, 0), (0, 0)] \<noteq> 0 \<and>
    length (pass_actual toy_env toy_state [(0, 0), (0, 0), (0, 0)] 2 4 False)
      = length (pass_predicted toy_env toy_state [(0, 0), (0, 0), (0, 0)] 2 4 False) \<and>
    (pass_actual toy_env toy_state [(0, 0), (0, 0), (0, 0)] 2 4 False = []
       \<or> 0 \<in> set (pass_actual toy_env toy_state [(0, 0), (0, 0), (0, 0)] 2 4 False)
       \<or> 1 \<in> set (pass_actual toy_env toy_state [(0, 0), (0, 0), (0, 0)] 2 4 False))"
    by (simp add: lab len)
  from confusion_matrix_two_by_two [of toy_env toy_state "[(0, 0), (0, 0), (0, 0)]" 2 4 False]
    pre obtain ret st' evs where
    run: "process_batches toy_env toy_state [(0, 0), (0, 0), (0, 0)] 2 4 False = Inr (ret, st', evs)"
    by blast
  from confusion_matrix_two_by_two [of toy_env toy_state "[(0, 0), (0, 0), (0, 0)]" 2 4 False ret st' evs]
    run have "cm_of ret = [[3, 0], [0, 0]] \<and> cm_of ret ! 1 = [0, 0] \<and>
     map (\<lambda>row. row ! 1) (cm_of ret) = [0, 0]"
    by (simp add: lab count_pairs_def)
  with run lab show ?thesis
    by (intro exI [of _ ret] exI [of _ st'] exI [of _ evs]) simp
qed

text \<open>
  C7. A pass with \<open>is_training = False\<close> that returns has made no call of
  \<open>zero_grad\<close>, \<open>backward\<close> or \<open>step\<close>, has left the model weights and the optimizer as
  they were, and returns the results and the confusion matrix only. A pass with
  \<open>is_training = True\<close> returns the model with them, after one \<open>zero_grad\<close>, \<open>backward\<close>,
  \<open>step\<close> per batch.
\<close>

theorem evaluation_pass_frame:
  "(process_batches E st ds bs nw False = Inr (ret, st', evs) \<longrightarrow>
      evs = [] \<and> weights st' = weights st \<and> optimizer st' = optimizer st \<and>
      (\<exists>res cm. ret = ResultsCm res cm)) \<and>
   (process_batches E st ds bs nw True = Inr (ret2, st2, evs2) \<longrightarrow>
      (\<exists>res cm. ret2 = ModelResultsCm (weights st2) res cm) \<and>
      evs2 = concat (map (\<lambda>b. [ZeroGrad, Backward, Step]) (pass_batches E st ds bs nw)))"
proof (intro conjI impI)
  assume run: "process_batches E st ds bs nw False = Inr (ret, st', evs)"
  show "evs = []" using process_batches_Inr(5) [OF run] by simp
  show "weights st' = weights st" using process_batches_Inr(6) [OF run] by simp
  show "optimizer st' = optimizer st" using process_batches_Inr(6) [OF run] by simp
  show "\<exists>res cm. ret = ResultsCm res cm"
    using process_batches_Inr(4) [OF run] by (cases ret) simp_all
next
  assume run: "process_batches E st ds bs nw True = Inr (ret2, st2, evs2)"
  show "\<exists>res cm. ret2 = ModelResultsCm (weights st2) res cm"
    using process_batches_Inr(4) [OF run] by (cases ret2) simp_all
  show "evs2 = concat (map (\<lambda>b. [ZeroGrad, Backward, Step]) (pass_batches E st ds bs nw))"
    using process_batches_Inr(5) [OF run] by simp
qed

theorem evaluation_pass_frame_witness:
  "\<exists>ret st' evs ret2 st2 evs2.
     process_batches toy_env toy_state [(0, 0), (0, 1), (1, 1)] 2 4 False = Inr (ret, st', evs) \<and>
     process_batches toy_env toy_state [(0, 0), (0, 1), (1, 1)] 2 4 True = Inr (ret2, st2, evs2) \<and>
     evs = [] \<and> weights st' = weights toy_state \<and> optimizer st' = optimizer toy_state \<and>
     (\<exists>res cm. ret = ResultsCm res cm) \<and>
     (\<exists>res cm. ret2 = ModelResultsCm (weights st2) res cm) \<and>
     weights st2 = 2 \<and> evs2 = [ZeroGrad, Backward, Step, ZeroGrad, Backward, Step]"
proof -
  have ev: "process_batches toy_env toy_state [(0, 0), (0, 1), (1, 1)] 2 4 False =
     Inr (ResultsCm [(''loss'', 7 / 6), (''accuracy'', 2 / 3), (''precision'', 3 / 4),
                     (''recall'', 3 / 4), (''f1'', 2 / 3)] [[1, 0], [1, 1]],
          \<lparr>weights = 0, optimizer = Some 0, rng = 1\<rparr>, [])"
    by (simp add: process_batches_def toy_defs)
  have tr: "process_batches toy_env toy_state [(0, 0), (0, 1), (1, 1)] 2 4 True =
     Inr (ModelResultsCm 2 [(''loss'', 11 / 6), (''accuracy'', 1 / 3), (''precision'', 1 / 6),
                     (''recall'', 1 / 3), (''f1'', 2 / 9)] [[1, 0], [1, 0]],
          \<lparr>weights = 2, optimizer = Some 2, rng = 1\<rparr>,
          [ZeroGrad, Backward, Step, ZeroGrad, Backward, Step])"
    by (simp add: process_batches_def toy_defs)
  note frame = evaluation_pass_frame [of toy_env toy_state "[(0, 0), (0, 1), (1, 1)]" 2 4 _ _ _ _ _ _,
      THEN conjunct1, rule_format, OF ev]
    evaluation_pass_frame [of toy_env toy_state "[(0, 0), (0, 1), (1, 1)]" 2 4 _ _ _ _ _ _,
      THEN conjunct2, rule_format, OF tr]
  show ?thesis
    using frame by (simp add: ev tr)
qed

lemma batch_step_loss:
  "batch_step E tr st batch = Inr (st', oc, ev) \<Longrightarrow>
   oc_loss oc = sum_list (loss_fn E (fst (model_call E (weights st) (rng st) (fst batch))) (snd batch))"
  by (auto simp: batch_step_def oc_loss_def Let_def split: prod.splits if_splits option.splits)

lemma toy_long_pass:
  "process_batches toy_env toy_state (replicate 100 (0, 1)) 20 4 False =
     Inr (ResultsCm [(''loss'', 5 / 2), (''accuracy'', 0), (''precision'', 0),
                     (''recall'', 0), (''f1'', 0)] [[0, 0], [100, 0]],
          \<lparr>weights = 0, optimizer = Some 0, rng = 1\<rparr>, [])"
  by code_simp

lemma toy_long_pass_sum:
  "sum_list (map oc_loss (pass_outcomes toy_env toy_state (replicate 100 (0, 1)) 20 4 False)) = 250"
  by code_simp

lemma toy_long_pass_len: "ds_len toy_env (replicate 100 (0, 1)) = 100"
  by (simp add: toy_env_def)

text \<open>
  C8. Whenever a pass returns, the dataset is not empty and the reported loss is the sum
  of the per-batch summed losses divided by the length of the dataset; for a dataset of
  length 100 and a sum of 250 it is 2.5. A pass on a non-empty dataset returns under the
  conditions stated for C6. (The per-batch loss is the sum of the per-example losses of
  the batch, see \<open>batch_step_loss\<close>.)
\<close>

theorem reported_loss_is_sum_over_dataset_size:
  "(process_batches E st ds bs nw tr = Inr (ret, st', evs) \<longrightarrow>
      0 < ds_len E ds \<and>
      lookup (results_of ret) ''loss'' =
        Inr (sum_list (map oc_loss (pass_outcomes E st ds bs nw tr)) / real (ds_len E ds)) \<and>
      (ds_len E ds = 100 \<and> sum_list (map oc_loss (pass_outcomes E st ds bs nw tr)) = 250 \<longrightarrow>
         lookup (results_of ret) ''loss'' = Inr (5 / 2))) \<and>
   ((tr \<longrightarrow> optimizer st \<noteq> None) \<and> 0 < bs \<and> 0 \<le> nw \<and> 0 < ds_len E ds \<and>
    length (pass_actual E st ds bs nw tr) = length (pass_predicted E st ds bs nw tr) \<and>
    (pass_actual E st ds bs nw tr = [] \<or> 0 \<in> set (pass_actual E st ds bs nw tr)
       \<or> 1 \<in> set (pass_actual E st ds bs nw tr)) \<longrightarrow>
    (\<exists>ret st' evs. process_batches E st ds bs nw tr = Inr (ret, st', evs)))"
proof (intro conjI impI)
  assume run: "process_batches E st ds bs nw tr = Inr (ret, st', evs)"
  show "0 < ds_len E ds"
    using process_batches_Inr(1) [OF run] by simp
  show loss: "lookup (results_of ret) ''loss'' =
        Inr (sum_list (map oc_loss (pass_outcomes E st ds bs nw tr)) / real (ds_len E ds))"
    using process_batches_Inr(2) [OF run] by (simp add: lookup_def)
  show "lookup (results_of ret) ''loss'' = Inr (5 / 2)"
    if "ds_len E ds = 100 \<and> sum_list (map oc_loss (pass_outcomes E st ds bs nw tr)) = 250"
    using that loss by simp
next
  assume "(tr \<longrightarrow> optimizer st \<noteq> None) \<and> 0 < bs \<and> 0 \<le> nw \<and> 0 < ds_len E ds \<and>
    length (pass_actual E st ds bs nw tr) = length (pass_predicted E st ds bs nw tr) \<and>
    (pass_actual E st ds bs nw tr = [] \<or> 0 \<in> set (pass_actual E st ds bs nw tr)
       \<or> 1 \<in> set (pass_actual E st ds bs nw tr))"
  then show "\<exists>ret st' evs. process_batches E st ds bs nw tr = Inr (ret, st', evs)"
    using process_batches_returns [of tr st bs nw E ds] by auto
qed

theorem reported_loss_is_sum_over_dataset_size_witness:
  "\<exists>ret st' evs.
     process_batches toy_env toy_state (replicate 100 (0, 1)) 20 4 False = Inr (ret, st', evs) \<and>
     ds_len toy_env (replicate 100 (0, 1)) = 100 \<and>
     sum_list (map oc_loss (pass_outcomes toy_env toy_state (replicate 100 (0, 1)) 20 4 False)) = 250 \<and>
     lookup (results_of ret) ''loss'' = Inr (5 / 2)"
proof -
  note inst = reported_loss_is_sum_over_dataset_size [of toy_env toy_state "replicate 100 (0, 1)" 20 4
      False _ _ _, THEN conjunct1, rule_format, OF toy_long_pass, THEN conjunct2, THEN conjunct2,
      rule_format, OF conjI [OF toy_long_pass_len toy_long_pass_sum]]
  show ?thesis
    using inst toy_long_pass_len toy_long_pass_sum by (simp add: toy_long_pass)
qed

lemma process_batches_empty:
  "ds_len E ds = 0 \<Longrightarrow> process_batches E st ds bs nw tr = Inl ValueError"
  by (simp add: process_batches_def DataLoader_def)

lemma train_first_pass_error:
  assumes "epoch_range cfg \<noteq> []"
    and "process_batches E st trainset (dict_get (batch_size cfg) 20) (dict_get (num_workers cfg) 4) True = Inl e"
  shows "train E st h trainset valset cfg = Inl e"
proof -
  obtain ep eps where r: "epoch_range cfg = ep # eps"
    using assms(1) by (cases "epoch_range cfg") auto
  show ?thesis
    by (simp add: train_def r epoch_body_def epoch_passes_def assms(2))
qed

text \<open>
  C9, as the claim states it, fails: on an empty dataset the pass does not end with the
  division by zero of the loss average. Building the loader raises \<open>ValueError\<close> first,
  so the evaluation pass of the toy environment on the empty dataset ends with
  \<open>ValueError\<close>, not with \<open>ZeroDivisionError\<close>.
\<close>

theorem empty_dataset_not_zero_division_counterexample:
  "process_batches toy_env toy_state [] 2 4 False = Inl ValueError \<and>
   process_batches toy_env toy_state [] 2 4 False \<noteq> Inl ZeroDivisionError"
  by (simp add: process_batches_def DataLoader_def toy_env_def)

text \<open>
  C9, amended. On a dataset of length 0, \<open>process_batches\<close> returns no result, in
  training and in evaluation mode alike: the fault is the \<open>ValueError\<close> raised when the
  loader is built, before any batch is processed and before the loss average is reached.
  The fault is not caught: \<open>train\<close> on an empty training set ends with it in its first
  epoch.
\<close>

theorem empty_dataset_raises_before_division:
  "(ds_len E ds = 0 \<longrightarrow> process_batches E st ds bs nw tr = Inl ValueError) \<and>
   (ds_len E trainset = 0 \<and> epoch_range cfg \<noteq> [] \<longrightarrow>
      train E st h trainset valset cfg = Inl ValueError)"
proof (intro conjI impI)
  show "process_batches E st ds bs nw tr = Inl ValueError" if "ds_len E ds = 0"
    using that by (rule process_batches_empty)
  show "train E st h trainset valset cfg = Inl ValueError"
    if "ds_len E trainset = 0 \<and> epoch_range cfg \<noteq> []"
    using that train_first_pass_error [of cfg E st trainset ValueError h valset]
      process_batches_empty [of E trainset st
        "dict_get (batch_size cfg) 20" "dict_get (num_workers cfg) 4" True]
    by blast
qed

theorem empty_dataset_raises_before_division_witness:
  "ds_len toy_env [] = 0 \<and> epoch_range default_config \<noteq> [] \<and>
   process_batches toy_env toy_state [] 2 4 True = Inl ValueError \<and>
   train toy_env toy_state empty_history [] [(0, 0)] default_config = Inl ValueError"
proof -
  have len: "ds_len toy_env [] = 0" by (simp add: toy_env_def)
  have rg: "epoch_range default_config \<noteq> []"
    by (simp add: epoch_range_def default_config_def dict_get_def upto.simps)
  show ?thesis
    using empty_dataset_raises_before_division [of toy_env "[]" toy_state 2 4 True "[]" default_config
        empty_history "[(0, 0)]"]
      len rg
    by simp
qed

section \<open>Checkpoint names\<close>

declare str_nat.simps [simp del]

lemma digit_char_inj: "a < 10 \<Longrightarrow> b < 10 \<Longrightarrow> digit_char a = digit_char b \<Longrightarrow> a = b"
proof -
  assume a: "a < 10" and b: "b < 10" and eq: "digit_char a = digit_char b"
  from eq have "of_char (char_of (48 + a)) = (of_char (char_of (48 + b)) :: nat)"
    by (simp add: digit_char_def)
  then have "(48 + a) mod 256 = (48 + b) mod 256"
    by (simp only: of_char_of)
  with a b show "a = b" by simp
qed

lemma digit_char_not_minus: "d < 10 \<Longrightarrow> digit_char d \<noteq> CHR ''-''"
proof
  assume d: "d < 10" and eq: "digit_char d = CHR ''-''"
  from eq have "of_char (char_of (48 + d)) = (of_char CHR ''-'' :: nat)"
    by (simp add: digit_char_def)
  then have "(48 + d) mod 256 = 45"
    by (simp only: of_char_of) simp
  with d show False by simp
qed

lemma str_nat_nonempty: "str_nat n \<noteq> []"
  by (subst str_nat.simps) simp

lemma str_nat_last: "last (str_nat n) = digit_char (n mod 10)"
  by (subst str_nat.simps) simp

lemma str_nat_butlast: "butlast (str_nat n) = (if n < 10 then [] else str_nat (n div 10))"
  by (subst str_nat.simps) simp

lemma str_nat_inj: "str_nat m = str_nat n \<Longrightarrow> m = n"
proof (induction m arbitrary: n rule: less_induct)
  case (less m)
  from less.prems have "last (str_nat m) = last (str_nat n)" by simp
  then have "digit_char (m mod 10) = digit_char (n mod 10)"
    by (simp add: str_nat_last)
  then have md: "m mod 10 = n mod 10"
    by (rule digit_char_inj [rotated 2]) simp_all
  from less.prems have "butlast (str_nat m) = butlast (str_nat n)" by simp
  then have bl: "(if m < 10 then [] else str_nat (m div 10)) = (if n < 10 then [] else str_nat (n div 10))"
    by (simp only: str_nat_butlast)
  show ?case
  proof (cases "m < 10")
    case True
    with bl have "n < 10"
      using str_nat_nonempty [of "n div 10"] by (auto split: if_splits)
    with True md show ?thesis by simp
  next
    case False
    with bl have n: "\<not> n < 10" and eq: "str_nat (m div 10) = str_nat (n div 10)"
      using str_nat_nonempty [of "m div 10"] by (auto split: if_splits)
    from False have "m div 10 < m" by simp
    from less.IH [OF this eq] have "m div 10 = n div 10" .
    with md show ?thesis
      by (metis div_mult_mod_eq)
  qed
qed

lemma str_nat_hd_not_minus: "hd (str_nat n) \<noteq> CHR ''-''"
proof (induction n rule: str_nat.induct)
  case (1 n)
  show ?case
  proof (cases "n < 10")
    case True
    then show ?thesis
      by (subst str_nat.simps) (simp add: digit_char_not_minus)
  next
    case False
    with 1 have "hd (str_nat (n div 10)) \<noteq> CHR ''-''" by simp
    with False show ?thesis
      by (subst str_nat.simps) (simp add: str_nat_nonempty)
  qed
qed

lemma str_int_inj: "str_int i = str_int j \<Longrightarrow> i = j"
proof -
  assume eq: "str_int i = str_int j"
  have neg: False if "str_nat a = CHR ''-'' # str_nat b" for a b
    using that str_nat_hd_not_minus [of a] by simp
  show "i = j"
  proof (cases "i < 0"; cases "j < 0")
    assume "i < 0" "j < 0"
    with eq have "nat (- i) = nat (- j)" by (simp add: str_int_def str_nat_inj)
    with \<open>i < 0\<close> \<open>j < 0\<close> show ?thesis by simp
  next
    assume "i < 0" "\<not> j < 0"
    with eq neg [of "nat j" "nat (- i)"] show ?thesis by (simp add: str_int_def)
  next
    assume "\<not> i < 0" "j < 0"
    with eq neg [of "nat i" "nat (- j)"] show ?thesis by (simp add: str_int_def)
  next
    assume "\<not> i < 0" "\<not> j < 0"
    with eq have "nat i = nat j" by (simp add: str_int_def str_nat_inj)
    with \<open>\<not> i < 0\<close> \<open>\<not> j < 0\<close> show ?thesis by simp
  qed
qed

lemma os_path_join_relative:
  "b \<noteq> [] \<Longrightarrow> hd b \<noteq> CHR ''/'' \<Longrightarrow>
   os_path_join a b = (if a = [] \<or> last a = CHR ''/'' then a else a @ ''/'') @ b"
  by (simp add: os_path_join_def)

lemma epoch_path_inj: "epoch_path dir e1 = epoch_path dir e2 \<Longrightarrow> e1 = e2"
  by (simp add: epoch_path_def os_path_join_relative str_int_inj split: if_splits)

lemma best_path_not_epoch_path: "best_path dir \<noteq> epoch_path dir e"
  by (simp add: epoch_path_def best_path_def os_path_join_relative)

section \<open>The run history\<close>

lemma hist_append_Inr:
  "hist_append key v h = Inr h' \<Longrightarrow>
   map_of h' k = (if k = key then map_option (\<lambda>xs. xs @ [v]) (map_of h key) else map_of h k)
   \<and> map_of h key \<noteq> None"
  by (induction h arbitrary: h') (auto split: if_splits sum.splits)

lemma hist_append_Inl: "hist_append key v h = Inl e \<Longrightarrow> e = KeyError key \<and> map_of h key = None"
  by (induction h) (auto split: if_splits sum.splits)

lemma hist_append_missing: "map_of h key = None \<Longrightarrow> hist_append key v h = Inl (KeyError key)"
  by (cases "hist_append key v h") (auto dest: hist_append_Inl hist_append_Inr)

lemma hist_append_present: "map_of h key \<noteq> None \<Longrightarrow> \<exists>h'. hist_append key v h = Inr h'"
  by (cases "hist_append key v h") (auto dest: hist_append_Inl)

lemma update_history_Inr:
  "update_history prefix rs h = Inr h' \<Longrightarrow> distinct (map fst rs) \<Longrightarrow>
   map_of h' k = (case map_of (prefixed prefix rs) k of
                    None \<Rightarrow> map_of h k
                  | Some v \<Rightarrow> map_option (\<lambda>xs. xs @ [v]) (map_of h k))"
proof (induction rs arbitrary: h)
  case Nil
  then show ?case by (simp add: prefixed_def)
next
  case (Cons r rs)
  obtain name v where r: "r = (name, v)" by (cases r)
  from Cons.prems r obtain h1 where
    a: "hist_append (prefix @ name) v h = Inr h1" and u: "update_history prefix rs h1 = Inr h'"
    by (auto split: sum.splits)
  from Cons.prems r have d: "distinct (map fst rs)" and nin: "name \<notin> fst ` set rs" by auto
  have none: "map_of (prefixed prefix rs) (prefix @ name) = None"
    using nin by (auto simp: prefixed_def map_of_eq_None_iff image_iff)
  note ih = Cons.IH [OF u d]
  note ha = hist_append_Inr [OF a, of k]
  show ?case
  proof (cases "k = prefix @ name")
    case True
    then show ?thesis using ih ha none r by (auto simp: prefixed_def split: option.splits)
  next
    case False
    then show ?thesis using ih ha r by (auto simp: prefixed_def split: option.splits)
  qed
qed

lemma update_history_dom:
  "update_history prefix rs h = Inr h' \<Longrightarrow> (map_of h' k = None) = (map_of h k = None)"
proof (induction rs arbitrary: h)
  case Nil
  then show ?case by simp
next
  case (Cons r rs)
  obtain name v where r: "r = (name, v)" by (cases r)
  from Cons.prems r obtain h1 where
    a: "hist_append (prefix @ name) v h = Inr h1" and u: "update_history prefix rs h1 = Inr h'"
    by (auto split: sum.splits)
  show ?case
    using Cons.IH [OF u] hist_append_Inr [OF a, of k] by (auto split: if_splits)
qed

lemma update_history_find:
  "update_history prefix rs h =
     (case find (\<lambda>k. map_of h k = None) (map fst (prefixed prefix rs)) of
        Some k \<Rightarrow> Inl (KeyError k)
      | None \<Rightarrow> update_history prefix rs h) \<and>
   (find (\<lambda>k. map_of h k = None) (map fst (prefixed prefix rs)) = None \<longrightarrow>
      (\<exists>h'. update_history prefix rs h = Inr h'))"
proof (induction rs arbitrary: h)
  case Nil
  then show ?case by (simp add: prefixed_def)
next
  case (Cons r rs)
  obtain name v where r: "r = (name, v)" by (cases r)
  show ?case
  proof (cases "map_of h (prefix @ name)")
    case None
    then show ?thesis
      by (simp add: r prefixed_def hist_append_missing)
  next
    case (Some xs)
    then obtain h1 where a: "hist_append (prefix @ name) v h = Inr h1"
      using hist_append_present [of h "prefix @ name" v] by auto
    have dom: "(\<lambda>k. map_of h1 k = None) = (\<lambda>k. map_of h k = None)"
      using hist_append_Inr [OF a] by (auto simp: fun_eq_iff)
    show ?thesis
      using Cons.IH [of h1] Some a
      by (simp add: r prefixed_def dom split: option.splits)
  qed
qed

section \<open>One epoch of the training loop\<close>

lemma optimizer_calls_no_save:
  "saved_epochs path (concat (map (\<lambda>b. [ZeroGrad, Backward, Step]) bs)) = []"
  by (induction bs) (simp_all add: saved_epochs_def)

lemma optimizer_calls_not_periodic:
  "periodic_log dir (concat (map (\<lambda>b. [ZeroGrad, Backward, Step]) bs)) = []"
  "filter (\<lambda>ev. \<not> is_periodic dir ev) (concat (map (\<lambda>b. [ZeroGrad, Backward, Step]) bs))
     = concat (map (\<lambda>b. [ZeroGrad, Backward, Step]) bs)"
  by (induction bs) (simp_all add: periodic_log_def)

lemma process_batches_events:
  assumes "process_batches E st ds bs nw tr = Inr (ret, st', evs)"
  shows "saved_epochs path evs = []" and "periodic_log dir evs = []"
    and "filter (\<lambda>ev. \<not> is_periodic dir ev) evs = evs"
  using process_batches_Inr(5) [OF assms]
  by (simp_all add: optimizer_calls_no_save optimizer_calls_not_periodic)
    (simp_all add: saved_epochs_def periodic_log_def)

lemma epoch_passes_Inr:
  assumes "epoch_passes E trainset valset cfg st = Inr (st2, trr, vr, ev)"
  shows "\<exists>l a p r f. trr = [(''loss'', l), (''accuracy'', a), (''precision'', p), (''recall'', r), (''f1'', f)]"
    and "\<exists>l a p r f. vr = [(''loss'', l), (''accuracy'', a), (''precision'', p), (''recall'', r), (''f1'', f)]"
    and "saved_epochs path ev = []" and "periodic_log dir ev = []"
    and "filter (\<lambda>ev. \<not> is_periodic dir ev) ev = ev"
proof -
  from assms obtain m res1 cm1 st1 ev1 cm2 ev2 where
    p1: "process_batches E st trainset (dict_get (batch_size cfg) 20) (dict_get (num_workers cfg) 4) True
           = Inr (ModelResultsCm m trr cm1, st1, ev1)"
    and p2: "process_batches E (st1\<lparr>weights := m\<rparr>) valset (dict_get (batch_size cfg) 20)
           (dict_get (num_workers cfg) 4) False = Inr (ResultsCm vr cm2, st2, ev2)"
    and ev: "ev = ev1 @ ev2"
    by (auto simp: epoch_passes_def Let_def split: sum.splits returned.splits)
  show "\<exists>l a p r f. trr = [(''loss'', l), (''accuracy'', a), (''precision'', p), (''recall'', r), (''f1'', f)]"
    using process_batches_Inr(2) [OF p1] by simp
  show "\<exists>l a p r f. vr = [(''loss'', l), (''accuracy'', a), (''precision'', p), (''recall'', r), (''f1'', f)]"
    using process_batches_Inr(2) [OF p2] by simp
  show "saved_epochs path ev = []"
    using process_batches_events(1) [OF p1, of path] process_batches_events(1) [OF p2, of path]
    by (simp add: ev saved_epochs_def)
  show "periodic_log dir ev = []"
    using process_batches_events(2) [OF p1, of dir] process_batches_events(2) [OF p2, of dir]
    by (simp add: ev periodic_log_def)
  show "filter (\<lambda>ev. \<not> is_periodic dir ev) ev = ev"
    using process_batches_events(3) [OF p1, of dir] process_batches_events(3) [OF p2, of dir]
    by (simp add: ev)
qed

lemma epoch_body_Inr:
  assumes "epoch_body E trainset valset cfg (st, h, best) epoch = Inr ((st2, h2, best2), ev)"
  shows "\<exists>trr vr ev0 f1.
     epoch_passes E trainset valset cfg st = Inr (st2, trr, vr, ev0) \<and>
     map_of vr ''f1'' = Some f1 \<and>
     (\<forall>k. map_of h2 k = (case map_of (epoch_entries trr vr) k of
                           None \<Rightarrow> map_of h k
                         | Some v \<Rightarrow> map_option (\<lambda>xs. xs @ [v]) (map_of h k))) \<and>
     best2 = (if best < f1 then f1 else best) \<and>
     ev = ev0 @ best_events (dict_get (checkpoint_dir cfg) ''checkpoints'') st2 h2 epoch f1 best
             @ periodic_events (dict_get (checkpoint_dir cfg) ''checkpoints'')
                 (dict_get (log_every cfg) 5) st2 h2 epoch"
proof -
  from assms obtain trr vr ev0 h1 f1 where
    ps: "epoch_passes E trainset valset cfg st = Inr (st2, trr, vr, ev0)"
    and u1: "update_history ''train_'' trr h = Inr h1"
    and u2: "update_history ''val_'' vr h1 = Inr h2"
    and lk: "lookup vr ''f1'' = Inr f1"
    and b: "best2 = (if best < f1 then f1 else best)"
    and ev: "ev = ev0 @ best_events (dict_get (checkpoint_dir cfg) ''checkpoints'') st2 h2 epoch f1 best
             @ periodic_events (dict_get (checkpoint_dir cfg) ''checkpoints'')
                 (dict_get (log_every cfg) 5) st2 h2 epoch"
    by (auto simp: epoch_body_def Let_def split: sum.splits)
  from epoch_passes_Inr(1) [OF ps] obtain l a p r f where
    trr: "trr = [(''loss'', l), (''accuracy'', a), (''precision'', p), (''recall'', r), (''f1'', f)]"
    by blast
  from epoch_passes_Inr(2) [OF ps] obtain l' a' p' r' f' where
    vr: "vr = [(''loss'', l'), (''accuracy'', a'), (''precision'', p'), (''recall'', r'), (''f1'', f')]"
    by blast
  have d1: "distinct (map fst trr)" and d2: "distinct (map fst vr)"
    by (simp_all add: trr vr)
  have f1: "map_of vr ''f1'' = Some f1"
    using lk by (simp add: lookup_def split: option.splits)
  have h: "map_of h2 k = (case map_of (epoch_entries trr vr) k of
                           None \<Rightarrow> map_of h k
                         | Some v \<Rightarrow> map_option (\<lambda>xs. xs @ [v]) (map_of h k))" for k
  proof -
    have disj: "map_of (prefixed ''train_'' trr) k = None \<or> map_of (prefixed ''val_'' vr) k = None"
      by (simp add: trr vr prefixed_def)
    show ?thesis
      using update_history_Inr [OF u1 d1, of k] update_history_Inr [OF u2 d2, of k] disj
      by (auto simp: epoch_entries_def map_add_def split: option.splits)
  qed
  show ?thesis
    using ps f1 h b ev by blast
qed

section \<open>The training loop\<close>

lemma filter_upt_Suc:
  "filter P [0..<Suc n] = (if P 0 then [0] else []) @ map Suc (filter (\<lambda>i. P (Suc i)) [0..<n])"
proof -
  have "[0..<Suc n] = 0 # map Suc [0..<n]"
    by (simp add: upt_conv_Cons map_Suc_upt del: upt_Suc)
  then show ?thesis
    by (simp add: filter_map comp_def del: upt_Suc)
qed

lemma best_saves_running_max:
  "length fs = length es \<Longrightarrow>
   best_saves es fs b =
     map (\<lambda>i. es ! i) (filter (\<lambda>i. fs ! i > fold max (take i fs) b) [0..<length es])"
proof (induction es fs b rule: best_saves.induct)
  case (1 e es f fs best)
  have len: "length fs = length es" using "1.prems" by simp
  have mx: "max f best = (if f > best then f else best)" by (simp add: max_def)
  show ?case
  proof (cases "f > best")
    case True
    with "1.IH"(1) [OF True len] show ?thesis
      by (simp add: filter_upt_Suc comp_def mx del: upt_Suc)
  next
    case False
    with "1.IH"(2) [OF False len] show ?thesis
      by (simp add: filter_upt_Suc comp_def mx del: upt_Suc)
  qed
qed simp_all

lemma best_saves_spec:
  "length fs = length es \<Longrightarrow> best_saves es fs 0 = best_epochs_spec es fs"
  by (simp add: best_saves_running_max best_epochs_spec_def running_max_def)

lemma epoch_body_events:
  assumes "epoch_body E trainset valset cfg (st, h, best) epoch = Inr ((st2, h2, best2), ev)"
  shows "\<exists>f1. map_of h2 ''val_f1'' = map_option (\<lambda>xs. xs @ [f1]) (map_of h ''val_f1'') \<and>
      best2 = (if best < f1 then f1 else best) \<and>
      saved_epochs (best_path (dict_get (checkpoint_dir cfg) ''checkpoints'')) ev
        = (if best < f1 then [epoch] else [])"
    and "periodic_log (dict_get (checkpoint_dir cfg) ''checkpoints'') ev
        = (if dict_get (log_every cfg) 5 \<noteq> 0 \<and> epoch mod dict_get (log_every cfg) 5 = 0
           then [Some epoch, None] else [])"
proof -
  from epoch_body_Inr [OF assms] obtain trr vr ev0 f1 where
    ps: "epoch_passes E trainset valset cfg st = Inr (st2, trr, vr, ev0)"
    and f1: "map_of vr ''f1'' = Some f1"
    and h: "\<And>k. map_of h2 k = (case map_of (epoch_entries trr vr) k of
                           None \<Rightarrow> map_of h k
                         | Some v \<Rightarrow> map_option (\<lambda>xs. xs @ [v]) (map_of h k))"
    and b: "best2 = (if best < f1 then f1 else best)"
    and ev: "ev = ev0 @ best_events (dict_get (checkpoint_dir cfg) ''checkpoints'') st2 h2 epoch f1 best
             @ periodic_events (dict_get (checkpoint_dir cfg) ''checkpoints'')
                 (dict_get (log_every cfg) 5) st2 h2 epoch"
    by blast
  from epoch_passes_Inr(1) [OF ps] obtain l a p r f where
    trr: "trr = [(''loss'', l), (''accuracy'', a), (''precision'', p), (''recall'', r), (''f1'', f)]"
    by blast
  from epoch_passes_Inr(2) [OF ps] obtain l' a' p' r' f' where
    vr: "vr = [(''loss'', l'), (''accuracy'', a'), (''precision'', p'), (''recall'', r'), (''f1'', f')]"
    by blast
  have "map_of (epoch_entries trr vr) ''val_f1'' = Some f1"
    using f1 by (simp add: trr vr epoch_entries_def prefixed_def)
  then have hv: "map_of h2 ''val_f1'' = map_option (\<lambda>xs. xs @ [f1]) (map_of h ''val_f1'')"
    by (simp add: h)
  have sv: "saved_epochs (best_path (dict_get (checkpoint_dir cfg) ''checkpoints'')) ev
        = (if best < f1 then [epoch] else [])"
    using epoch_passes_Inr(3) [OF ps, of "best_path (dict_get (checkpoint_dir cfg) ''checkpoints'')"]
      best_path_not_epoch_path [of "dict_get (checkpoint_dir cfg) ''checkpoints''" epoch]
    by (auto simp: ev saved_epochs_def best_events_def periodic_events_def)
  show "\<exists>f1. map_of h2 ''val_f1'' = map_option (\<lambda>xs. xs @ [f1]) (map_of h ''val_f1'') \<and>
      best2 = (if best < f1 then f1 else best) \<and>
      saved_epochs (best_path (dict_get (checkpoint_dir cfg) ''checkpoints'')) ev
        = (if best < f1 then [epoch] else [])"
    using hv b sv by blast
  show "periodic_log (dict_get (checkpoint_dir cfg) ''checkpoints'') ev
        = (if dict_get (log_every cfg) 5 \<noteq> 0 \<and> epoch mod dict_get (log_every cfg) 5 = 0
           then [Some epoch, None] else [])"
    using epoch_passes_Inr(4) [OF ps, of "dict_get (checkpoint_dir cfg) ''checkpoints''"]
      best_path_not_epoch_path [of "dict_get (checkpoint_dir cfg) ''checkpoints''" epoch]
    by (auto simp: ev periodic_log_def best_events_def periodic_events_def)
qed

lemma train_loop_best:
  assumes "train_loop E trainset valset cfg es ((st, h, best), evs) = Inr ((st', h', best'), evs')"
    and "map_of h ''val_f1'' = Some old"
  shows "\<exists>fs. length fs = length es \<and> map_of h' ''val_f1'' = Some (old @ fs) \<and>
      saved_epochs (best_path (dict_get (checkpoint_dir cfg) ''checkpoints'')) evs'
        = saved_epochs (best_path (dict_get (checkpoint_dir cfg) ''checkpoints'')) evs
            @ best_saves es fs best"
  using assms
proof (induction es arbitrary: st h best evs old)
  case Nil
  then show ?case by simp
next
  case (Cons e es)
  from Cons.prems(1) obtain st2 h2 best2 ev where
    body: "epoch_body E trainset valset cfg (st, h, best) e = Inr ((st2, h2, best2), ev)"
    and rest: "train_loop E trainset valset cfg es ((st2, h2, best2), evs @ ev) = Inr ((st', h', best'), evs')"
    by (auto split: sum.splits)
  from epoch_body_events(1) [OF body] Cons.prems(2) obtain f1 where
    hv: "map_of h2 ''val_f1'' = Some (old @ [f1])"
    and b: "best2 = (if best < f1 then f1 else best)"
    and sv: "saved_epochs (best_path (dict_get (checkpoint_dir cfg) ''checkpoints'')) ev
        = (if best < f1 then [e] else [])"
    by auto
  from Cons.IH [OF rest hv] obtain fs where
    len: "length fs = length es" and h': "map_of h' ''val_f1'' = Some ((old @ [f1]) @ fs)"
    and s: "saved_epochs (best_path (dict_get (checkpoint_dir cfg) ''checkpoints'')) evs'
        = saved_epochs (best_path (dict_get (checkpoint_dir cfg) ''checkpoints'')) (evs @ ev)
            @ best_saves es fs best2"
    by blast
  have "saved_epochs (best_path (dict_get (checkpoint_dir cfg) ''checkpoints'')) evs'
        = saved_epochs (best_path (dict_get (checkpoint_dir cfg) ''checkpoints'')) evs
            @ best_saves (e # es) (f1 # fs) best"
    using s sv b by (simp add: saved_epochs_def)
  with len h' show ?case
    by (intro exI [of _ "f1 # fs"]) simp
qed

text \<open>
  C2. When \<open>train\<close> returns, the history list \<open>val_f1\<close> has gained the validation F1 of
  each epoch of the run, in order, and the epochs at which the best checkpoint was saved
  are exactly those whose validation F1 is strictly greater than the running maximum of
  the validation F1 of the epochs before, the running maximum starting at 0. For the
  epochs 1 to 4 with the F1 sequence 0.3, 0.5, 0.4, 0.6 the best checkpoint is saved at
  the epochs 1, 2 and 4.
\<close>

theorem best_checkpoint_rule:
  assumes "train E st h trainset valset cfg = Inr (m, st', h', evs)"
    and "map_of h ''val_f1'' = Some old"
  shows "\<exists>fs. map_of h' ''val_f1'' = Some (old @ fs) \<and> length fs = length (epoch_range cfg) \<and>
      saved_epochs (best_path (dict_get (checkpoint_dir cfg) ''checkpoints'')) evs
        = best_epochs_spec (epoch_range cfg) fs \<and>
      (epoch_range cfg = [1, 2, 3, 4] \<and> fs = [3 / 10, 5 / 10, 4 / 10, 6 / 10] \<longrightarrow>
         saved_epochs (best_path (dict_get (checkpoint_dir cfg) ''checkpoints'')) evs = [1, 2, 4])"
proof -
  from assms(1) obtain best where
    loop: "train_loop E trainset valset cfg (epoch_range cfg) ((st, h, 0), []) = Inr ((st', h', best), evs)"
    by (auto simp: train_def split: sum.splits)
  from train_loop_best [OF loop assms(2)] obtain fs where
    len: "length fs = length (epoch_range cfg)" and h': "map_of h' ''val_f1'' = Some (old @ fs)"
    and s: "saved_epochs (best_path (dict_get (checkpoint_dir cfg) ''checkpoints'')) evs
        = best_saves (epoch_range cfg) fs 0"
    by (auto simp: saved_epochs_def)
  have spec: "saved_epochs (best_path (dict_get (checkpoint_dir cfg) ''checkpoints'')) evs
        = best_epochs_spec (epoch_range cfg) fs"
    using s len by (simp add: best_saves_spec)
  have "saved_epochs (best_path (dict_get (checkpoint_dir cfg) ''checkpoints'')) evs = [1, 2, 4]"
    if "epoch_range cfg = [1, 2, 3, 4] \<and> fs = [3 / 10, 5 / 10, 4 / 10, 6 / 10]"
    using that s by simp
  with h' len spec show ?thesis by blast
qed

lemma scripted_run_returns:
  "\<not> isl (train scripted_env toy_state empty_history [(0, 0)] [(0, 1)]
            (default_config\<lparr>num_epochs := Some 4\<rparr>))"
  by code_simp

lemma scripted_run_val_f1:
  "(case train scripted_env toy_state empty_history [(0, 0)] [(0, 1)]
            (default_config\<lparr>num_epochs := Some 4\<rparr>) of
      Inl e \<Rightarrow> False
    | Inr (m, st', h', evs) \<Rightarrow> map_of h' ''val_f1'' = Some [3 / 10, 5 / 10, 4 / 10, 6 / 10])"
  by code_simp

theorem best_checkpoint_rule_witness:
  "\<exists>m st' h' evs.
     train scripted_env toy_state empty_history [(0, 0)] [(0, 1)]
       (default_config\<lparr>num_epochs := Some 4\<rparr>) = Inr (m, st', h', evs) \<and>
     map_of empty_history ''val_f1'' = Some [] \<and>
     epoch_range (default_config\<lparr>num_epochs := Some 4\<rparr>) = [1, 2, 3, 4] \<and>
     map_of h' ''val_f1'' = Some [3 / 10, 5 / 10, 4 / 10, 6 / 10] \<and>
     saved_epochs (best_path ''checkpoints'') evs = [1, 2, 4]"
proof -
  obtain m st' h' evs where
    run: "train scripted_env toy_state empty_history [(0, 0)] [(0, 1)]
       (default_config\<lparr>num_epochs := Some 4\<rparr>) = Inr (m, st', h', evs)"
    using scripted_run_returns
    by (cases "train scripted_env toy_state empty_history [(0, 0)] [(0, 1)]
       (default_config\<lparr>num_epochs := Some 4\<rparr>)") auto
  have hv: "map_of h' ''val_f1'' = Some [3 / 10, 5 / 10, 4 / 10, 6 / 10]"
    using scripted_run_val_f1 by (simp add: run)
  have h0: "map_of empty_history ''val_f1'' = Some []"
    by (simp add: empty_history_def history_keys_def)
  have rg: "epoch_range (default_config\<lparr>num_epochs := Some 4\<rparr>) = [1, 2, 3, 4]"
    by code_simp
  have dir: "dict_get (checkpoint_dir default_config) ''checkpoints'' = ''checkpoints''"
    by (simp add: default_config_def dict_get_def)
  from best_checkpoint_rule [OF run h0] obtain fs where
    fs: "map_of h' ''val_f1'' = Some ([] @ fs)"
    and imp: "epoch_range (default_config\<lparr>num_epochs := Some 4\<rparr>) = [1, 2, 3, 4] \<and>
         fs = [3 / 10, 5 / 10, 4 / 10, 6 / 10] \<longrightarrow>
         saved_epochs (best_path (dict_get (checkpoint_dir (default_config\<lparr>num_epochs := Some 4\<rparr>))
           ''checkpoints'')) evs = [1, 2, 4]"
    by blast
  from fs hv have "fs = [3 / 10, 5 / 10, 4 / 10, 6 / 10]" by simp
  with imp rg have "saved_epochs (best_path ''checkpoints'') evs = [1, 2, 4]"
    by (simp add: dir)
  with run h0 rg hv show ?thesis by blast
qed

lemma epoch_passes_log_every:
  "epoch_passes E trainset valset (cfg\<lparr>log_every := x\<rparr>) st = epoch_passes E trainset valset cfg st"
  by (simp add: epoch_passes_def)

lemma epoch_range_log_every: "epoch_range (cfg\<lparr>log_every := x\<rparr>) = epoch_range cfg"
  by (simp add: epoch_range_def)

lemma best_events_not_periodic:
  "filter (\<lambda>ev. \<not> is_periodic dir ev) (best_events dir st h epoch f1 best) = best_events dir st h epoch f1 best"
  using best_path_not_epoch_path [of dir epoch] by (simp add: best_events_def)

lemma periodic_events_periodic:
  "filter (\<lambda>ev. \<not> is_periodic dir ev) (periodic_events dir every st h epoch) = []"
  by (simp add: periodic_events_def)

lemma epoch_body_log_every_0:
  "epoch_body E trainset valset (cfg\<lparr>log_every := Some 0\<rparr>) acc epoch =
     (case epoch_body E trainset valset cfg acc epoch of
        Inl e \<Rightarrow> Inl e
      | Inr (acc', ev) \<Rightarrow>
          Inr (acc', filter (\<lambda>ev. \<not> is_periodic (dict_get (checkpoint_dir cfg) ''checkpoints'') ev) ev))"
proof -
  obtain st h best where acc: "acc = (st, h, best)" by (cases acc)
  show ?thesis
  proof (cases "epoch_passes E trainset valset cfg st")
    case (Inl e)
    then show ?thesis
      by (simp add: epoch_body_def acc epoch_passes_log_every)
  next
    case (Inr r)
    then obtain st2 trr vr ev0 where r: "epoch_passes E trainset valset cfg st = Inr (st2, trr, vr, ev0)"
      by (cases r) auto
    note keep = epoch_passes_Inr(5) [OF r, of "dict_get (checkpoint_dir cfg) ''checkpoints''"]
    show ?thesis
      by (simp add: epoch_body_def acc epoch_passes_log_every r keep best_events_not_periodic
          periodic_events_periodic Let_def dict_get_def [of "Some 0"]
          periodic_events_def [of _ 0] split: sum.splits)
  qed
qed

lemma train_loop_prefix:
  "train_loop E trainset valset cfg es (acc, evs) =
     (case train_loop E trainset valset cfg es (acc, []) of
        Inl e \<Rightarrow> Inl e
      | Inr (acc', ev) \<Rightarrow> Inr (acc', evs @ ev))"
proof (induction es arbitrary: acc evs)
  case Nil
  then show ?case by simp
next
  case (Cons e es)
  show ?case
  proof (cases "epoch_body E trainset valset cfg acc e")
    case (Inl err)
    then show ?thesis by simp
  next
    case (Inr r)
    obtain acc1 ev1 where r: "r = (acc1, ev1)" by (cases r)
    show ?thesis
      using Cons.IH [of acc1 "evs @ ev1"] Cons.IH [of acc1 ev1]
      by (simp add: Inr r split: sum.splits)
  qed
qed

lemma train_loop_log_every_0:
  "train_loop E trainset valset (cfg\<lparr>log_every := Some 0\<rparr>) es (acc, []) =
     (case train_loop E trainset valset cfg es (acc, []) of
        Inl e \<Rightarrow> Inl e
      | Inr (acc', ev) \<Rightarrow>
          Inr (acc', filter (\<lambda>ev. \<not> is_periodic (dict_get (checkpoint_dir cfg) ''checkpoints'') ev) ev))"
proof (induction es arbitrary: acc)
  case Nil
  then show ?case by simp
next
  case (Cons e es)
  show ?case
  proof (cases "epoch_body E trainset valset cfg acc e")
    case (Inl err)
    then show ?thesis by (simp add: epoch_body_log_every_0)
  next
    case (Inr r)
    obtain acc1 ev1 where r: "r = (acc1, ev1)" by (cases r)
    show ?thesis
      using Cons.IH [of acc1]
        train_loop_prefix [of E trainset valset cfg es acc1 ev1]
        train_loop_prefix [of E trainset valset "cfg\<lparr>log_every := Some 0\<rparr>" es acc1
          "filter (\<lambda>ev. \<not> is_periodic (dict_get (checkpoint_dir cfg) ''checkpoints'') ev) ev1"]
      by (simp add: epoch_body_log_every_0 Inr r split: sum.splits)
  qed
qed

lemma train_log_every_0:
  "train E st h trainset valset (cfg\<lparr>log_every := Some 0\<rparr>) =
     (case train E st h trainset valset cfg of
        Inl e \<Rightarrow> Inl e
      | Inr (m, st', h', evs) \<Rightarrow>
          Inr (m, st', h',
               filter (\<lambda>ev. \<not> is_periodic (dict_get (checkpoint_dir cfg) ''checkpoints'') ev) evs))"
  by (simp add: train_def epoch_range_log_every train_loop_log_every_0 split: sum.splits)

lemma saved_epochs_filter_periodic:
  "saved_epochs (best_path dir) (filter (\<lambda>ev. \<not> is_periodic dir ev) evs) = saved_epochs (best_path dir) evs"
proof (induction evs)
  case Nil
  then show ?case by simp
next
  case (Cons ev evs)
  then show ?case
    using best_path_not_epoch_path [of dir]
    by (cases ev) (auto simp: saved_epochs_def)
qed

lemma train_loop_periodic:
  assumes "train_loop E trainset valset cfg es ((st, h, best), evs) = Inr ((st', h', best'), evs')"
  shows "periodic_log (dict_get (checkpoint_dir cfg) ''checkpoints'') evs'
      = periodic_log (dict_get (checkpoint_dir cfg) ''checkpoints'') evs
          @ concat (map (\<lambda>e. [Some e, None])
              (periodic_epochs_spec (dict_get (log_every cfg) 5) es))"
  using assms
proof (induction es arbitrary: st h best evs)
  case Nil
  then show ?case by (simp add: periodic_epochs_spec_def)
next
  case (Cons e es)
  from Cons.prems obtain st2 h2 best2 ev where
    body: "epoch_body E trainset valset cfg (st, h, best) e = Inr ((st2, h2, best2), ev)"
    and rest: "train_loop E trainset valset cfg es ((st2, h2, best2), evs @ ev) = Inr ((st', h', best'), evs')"
    by (auto split: sum.splits)
  show ?case
    using Cons.IH [OF rest] epoch_body_events(2) [OF body]
    by (simp add: periodic_log_def periodic_epochs_spec_def dvd_eq_mod_eq_0)
qed

lemma periodic_scenario: "periodic_epochs_spec 5 [1..12] = [5, 10]"
  by code_simp

text \<open>
  C5. When \<open>train\<close> returns, the periodic events of the run (a checkpoint saved under
  the per-epoch name of its epoch, immediately followed by the regeneration of the
  plots) occur exactly at the epochs of the run that are multiples of a non-zero
  \<open>log_every\<close>, in order; with \<open>log_every = 0\<close> there is none; with epochs 1 to 12 and
  \<open>log_every = 5\<close> they occur at the epochs 5 and 10 only. Setting \<open>log_every\<close> to 0
  changes nothing in the run but the removal of the periodic events: the returned model,
  the final state, the history and all other events, the best-checkpoint saves among
  them, are the same. The per-epoch names of two different epochs differ, and none is
  the name of the best checkpoint.
\<close>

theorem periodic_checkpoint_rule:
  "(train E st h trainset valset cfg = Inr (m, st', h', evs) \<longrightarrow>
      periodic_log (dict_get (checkpoint_dir cfg) ''checkpoints'') evs =
        concat (map (\<lambda>e. [Some e, None])
          (periodic_epochs_spec (dict_get (log_every cfg) 5) (epoch_range cfg))) \<and>
      (dict_get (log_every cfg) 5 = 0 \<longrightarrow>
         periodic_log (dict_get (checkpoint_dir cfg) ''checkpoints'') evs = []) \<and>
      (dict_get (start_epoch cfg) 1 = 1 \<and> dict_get (num_epochs cfg) 20 = 12 \<and>
       dict_get (log_every cfg) 5 = 5 \<longrightarrow>
         periodic_log (dict_get (checkpoint_dir cfg) ''checkpoints'') evs
           = [Some 5, None, Some 10, None])) \<and>
   train E st h trainset valset (cfg\<lparr>log_every := Some 0\<rparr>) =
     (case train E st h trainset valset cfg of
        Inl e \<Rightarrow> Inl e
      | Inr (m, st', h', evs) \<Rightarrow>
          Inr (m, st', h',
               filter (\<lambda>ev. \<not> is_periodic (dict_get (checkpoint_dir cfg) ''checkpoints'') ev) evs)) \<and>
   saved_epochs (best_path dir) (filter (\<lambda>ev. \<not> is_periodic dir ev) evs0)
     = saved_epochs (best_path dir) evs0 \<and>
   (epoch_path dir e1 = epoch_path dir e2 \<longrightarrow> e1 = e2) \<and>
   epoch_path dir e1 \<noteq> best_path dir"
proof (intro conjI impI)
  assume run: "train E st h trainset valset cfg = Inr (m, st', h', evs)"
  then obtain best where
    loop: "train_loop E trainset valset cfg (epoch_range cfg) ((st, h, 0), []) = Inr ((st', h', best), evs)"
    by (auto simp: train_def split: sum.splits)
  show rule: "periodic_log (dict_get (checkpoint_dir cfg) ''checkpoints'') evs =
        concat (map (\<lambda>e. [Some e, None])
          (periodic_epochs_spec (dict_get (log_every cfg) 5) (epoch_range cfg)))"
    using train_loop_periodic [OF loop] by (simp add: periodic_log_def)
  show "periodic_log (dict_get (checkpoint_dir cfg) ''checkpoints'') evs = []"
    if "dict_get (log_every cfg) 5 = 0"
    using that rule by (simp add: periodic_epochs_spec_def)
  show "periodic_log (dict_get (checkpoint_dir cfg) ''checkpoints'') evs = [Some 5, None, Some 10, None]"
    if "dict_get (start_epoch cfg) 1 = 1 \<and> dict_get (num_epochs cfg) 20 = 12 \<and>
       dict_get (log_every cfg) 5 = 5"
    using that rule periodic_scenario by (simp add: epoch_range_def)
next
  show "train E st h trainset valset (cfg\<lparr>log_every := Some 0\<rparr>) =
     (case train E st h trainset valset cfg of
        Inl e \<Rightarrow> Inl e
      | Inr (m, st', h', evs) \<Rightarrow>
          Inr (m, st', h',
               filter (\<lambda>ev. \<not> is_periodic (dict_get (checkpoint_dir cfg) ''checkpoints'') ev) evs))"
    by (rule train_log_every_0)
  show "saved_epochs (best_path dir) (filter (\<lambda>ev. \<not> is_periodic dir ev) evs0)
     = saved_epochs (best_path dir) evs0"
    by (rule saved_epochs_filter_periodic)
  show "e1 = e2" if "epoch_path dir e1 = epoch_path dir e2"
    using that by (rule epoch_path_inj)
  show "epoch_path dir e1 \<noteq> best_path dir"
    using best_path_not_epoch_path [of dir e1] by simp
qed

lemma toy_long_run_returns:
  "\<not> isl (train toy_env toy_state empty_history [(0, 0)] [(0, 1)]
            (default_config\<lparr>num_epochs := Some 12\<rparr>))"
  by code_simp

theorem periodic_checkpoint_rule_witness:
  "\<exists>m st' h' evs.
     train toy_env toy_state empty_history [(0, 0)] [(0, 1)]
       (default_config\<lparr>num_epochs := Some 12\<rparr>) = Inr (m, st', h', evs) \<and>
     dict_get (start_epoch (default_config\<lparr>num_epochs := Some 12\<rparr>)) 1 = 1 \<and>
     dict_get (num_epochs (default_config\<lparr>num_epochs := Some 12\<rparr>)) 20 = 12 \<and>
     dict_get (log_every (default_config\<lparr>num_epochs := Some 12\<rparr>)) 5 = 5 \<and>
     periodic_log ''checkpoints'' evs = [Some 5, None, Some 10, None]"
proof -
  obtain m st' h' evs where
    run: "train toy_env toy_state empty_history [(0, 0)] [(0, 1)]
       (default_config\<lparr>num_epochs := Some 12\<rparr>) = Inr (m, st', h', evs)"
    using toy_long_run_returns
    by (cases "train toy_env toy_state empty_history [(0, 0)] [(0, 1)]
       (default_config\<lparr>num_epochs := Some 12\<rparr>)") auto
  have cfg: "dict_get (start_epoch (default_config\<lparr>num_epochs := Some 12\<rparr>)) 1 = 1 \<and>
     dict_get (num_epochs (default_config\<lparr>num_epochs := Some 12\<rparr>)) 20 = 12 \<and>
     dict_get (log_every (default_config\<lparr>num_epochs := Some 12\<rparr>)) 5 = 5"
    by (simp add: default_config_def dict_get_def)
  have dir: "dict_get (checkpoint_dir (default_config\<lparr>num_epochs := Some 12\<rparr>)) ''checkpoints''
      = ''checkpoints''"
    by (simp add: default_config_def dict_get_def)
  note inst = periodic_checkpoint_rule [of toy_env toy_state empty_history "[(0, 0)]" "[(0, 1)]"
      "default_config\<lparr>num_epochs := Some 12\<rparr>" m st' h' evs, THEN conjunct1, rule_format, OF run,
      THEN conjunct2, THEN conjunct2, rule_format, OF cfg]
  have "periodic_log ''checkpoints'' evs = [Some 5, None, Some 10, None]"
    using inst by (simp only: dir)
  with run cfg show ?thesis by blast
qed

lemma epoch_entries_keys:
  assumes "trr = [(''loss'', l), (''accuracy'', a), (''precision'', p), (''recall'', r), (''f1'', f)]"
    and "vr = [(''loss'', l'), (''accuracy'', a'), (''precision'', p'), (''recall'', r'), (''f1'', f')]"
  shows "map fst (prefixed ''train_'' trr) @ map fst (prefixed ''val_'' vr) = history_keys"
    and "map fst (epoch_entries trr vr) = history_keys"
  by (simp_all add: assms prefixed_def epoch_entries_def history_keys_def)

lemma epoch_body_history:
  assumes "epoch_body E trainset valset cfg (st, h, best) epoch = Inr ((st2, h2, best2), ev)"
  shows "k \<in> set history_keys \<Longrightarrow> \<exists>v. map_of h2 k = map_option (\<lambda>xs. xs @ [v]) (map_of h k)"
    and "k \<notin> set history_keys \<Longrightarrow> map_of h2 k = map_of h k"
proof -
  from epoch_body_Inr [OF assms] obtain trr vr ev0 where
    ps: "epoch_passes E trainset valset cfg st = Inr (st2, trr, vr, ev0)"
    and h: "\<And>k. map_of h2 k = (case map_of (epoch_entries trr vr) k of
                           None \<Rightarrow> map_of h k
                         | Some v \<Rightarrow> map_option (\<lambda>xs. xs @ [v]) (map_of h k))"
    by blast
  from epoch_passes_Inr(1) [OF ps] obtain l a p r f where
    trr: "trr = [(''loss'', l), (''accuracy'', a), (''precision'', p), (''recall'', r), (''f1'', f)]"
    by blast
  from epoch_passes_Inr(2) [OF ps] obtain l' a' p' r' f' where
    vr: "vr = [(''loss'', l'), (''accuracy'', a'), (''precision'', p'), (''recall'', r'), (''f1'', f')]"
    by blast
  have keys: "map fst (epoch_entries trr vr) = history_keys"
    using epoch_entries_keys(2) [OF trr vr] .
  have none: "(map_of (epoch_entries trr vr) k = None) = (k \<notin> set history_keys)" for k
    by (simp add: map_of_eq_None_iff keys [symmetric])
  show "\<exists>v. map_of h2 k = map_option (\<lambda>xs. xs @ [v]) (map_of h k)" if "k \<in> set history_keys"
    using that none [of k] h [of k] by (cases "map_of (epoch_entries trr vr) k") auto
  show "map_of h2 k = map_of h k" if "k \<notin> set history_keys"
    using that none [of k] h [of k] by simp
qed

lemma train_loop_history:
  assumes "train_loop E trainset valset cfg es ((st, h, best), evs) = Inr ((st', h', best'), evs')"
  shows "k \<in> set history_keys \<Longrightarrow> map_of h k = Some old \<Longrightarrow>
         \<exists>new. map_of h' k = Some (old @ new) \<and> length new = length es"
    and "k \<notin> set history_keys \<Longrightarrow> map_of h' k = map_of h k"
proof -
  show "\<exists>new. map_of h' k = Some (old @ new) \<and> length new = length es"
    if "k \<in> set history_keys" "map_of h k = Some old"
    using assms that(2)
  proof (induction es arbitrary: st h best evs old)
    case Nil
    then show ?case by simp
  next
    case (Cons e es)
    from Cons.prems(1) obtain st2 h2 best2 ev where
      body: "epoch_body E trainset valset cfg (st, h, best) e = Inr ((st2, h2, best2), ev)"
      and rest: "train_loop E trainset valset cfg es ((st2, h2, best2), evs @ ev) = Inr ((st', h', best'), evs')"
      by (auto split: sum.splits)
    from epoch_body_history(1) [OF body that(1)] Cons.prems(2) obtain v where
      h2: "map_of h2 k = Some (old @ [v])" by auto
    from Cons.IH [OF rest h2] obtain new where
      "map_of h' k = Some ((old @ [v]) @ new)" "length new = length es" by blast
    then show ?case
      by (intro exI [of _ "v # new"]) simp
  qed
  show "map_of h' k = map_of h k" if "k \<notin> set history_keys"
    using assms
  proof (induction es arbitrary: st h best evs)
    case Nil
    then show ?case by simp
  next
    case (Cons e es)
    from Cons.prems(1) obtain st2 h2 best2 ev where
      body: "epoch_body E trainset valset cfg (st, h, best) e = Inr ((st2, h2, best2), ev)"
      and rest: "train_loop E trainset valset cfg es ((st2, h2, best2), evs @ ev) = Inr ((st', h', best'), evs')"
      by (auto split: sum.splits)
    show ?case
      using Cons.IH [OF rest] epoch_body_history(2) [OF body that] by simp
  qed
qed

lemma find_append_cases:
  "find P (xs @ ys) = (case find P xs of None \<Rightarrow> find P ys | Some x \<Rightarrow> Some x)"
  by (induction xs) simp_all

lemma epoch_body_missing_key:
  assumes ps: "epoch_passes E trainset valset cfg st = Inr (st2, trr, vr, ev0)"
  shows "epoch_body E trainset valset cfg (st, h, best) epoch =
           (case first_missing h of
              Some k \<Rightarrow> Inl (KeyError k)
            | None \<Rightarrow> epoch_body E trainset valset cfg (st, h, best) epoch)"
    and "first_missing h = None \<Longrightarrow> \<exists>r. epoch_body E trainset valset cfg (st, h, best) epoch = Inr r"
proof -
  from epoch_passes_Inr(1) [OF ps] obtain l a p r f where
    trr: "trr = [(''loss'', l), (''accuracy'', a), (''precision'', p), (''recall'', r), (''f1'', f)]"
    by blast
  from epoch_passes_Inr(2) [OF ps] obtain l' a' p' r' f' where
    vr: "vr = [(''loss'', l'), (''accuracy'', a'), (''precision'', p'), (''recall'', r'), (''f1'', f')]"
    by blast
  have fm: "first_missing h =
      (case find (\<lambda>k. map_of h k = None) (map fst (prefixed ''train_'' trr)) of
         None \<Rightarrow> find (\<lambda>k. map_of h k = None) (map fst (prefixed ''val_'' vr))
       | Some k \<Rightarrow> Some k)"
    unfolding first_missing_def epoch_entries_keys(1) [OF trr vr, symmetric]
    by (rule find_append_cases)
  have lk: "lookup vr ''f1'' = Inr f'"
    by (simp add: vr lookup_def)
  note u1 = update_history_find [of "''train_''" trr h]
  show "epoch_body E trainset valset cfg (st, h, best) epoch =
           (case first_missing h of
              Some k \<Rightarrow> Inl (KeyError k)
            | None \<Rightarrow> epoch_body E trainset valset cfg (st, h, best) epoch)"
  proof (cases "find (\<lambda>k. map_of h k = None) (map fst (prefixed ''train_'' trr))")
    case (Some k)
    with u1 have "update_history ''train_'' trr h = Inl (KeyError k)" by simp
    then show ?thesis
      by (simp add: fm Some epoch_body_def ps)
  next
    case None
    with u1 obtain h1 where h1: "update_history ''train_'' trr h = Inr h1" by auto
    have dom: "(\<lambda>k. map_of h1 k = None) = (\<lambda>k. map_of h k = None)"
      using update_history_dom [OF h1] by (simp add: fun_eq_iff)
    note u2 = update_history_find [of "''val_''" vr h1, unfolded dom]
    show ?thesis
    proof (cases "find (\<lambda>k. map_of h k = None) (map fst (prefixed ''val_'' vr))")
      case (Some k)
      with u2 have "update_history ''val_'' vr h1 = Inl (KeyError k)" by simp
      then show ?thesis
        by (simp add: fm None Some epoch_body_def ps h1)
    next
      case None2: None
      show ?thesis by (simp add: fm None None2)
    qed
  qed
  show "\<exists>r. epoch_body E trainset valset cfg (st, h, best) epoch = Inr r" if "first_missing h = None"
  proof -
    from that fm have n1: "find (\<lambda>k. map_of h k = None) (map fst (prefixed ''train_'' trr)) = None"
      and n2: "find (\<lambda>k. map_of h k = None) (map fst (prefixed ''val_'' vr)) = None"
      by (auto split: option.splits)
    from u1 n1 obtain h1 where h1: "update_history ''train_'' trr h = Inr h1" by auto
    have dom: "(\<lambda>k. map_of h1 k = None) = (\<lambda>k. map_of h k = None)"
      using update_history_dom [OF h1] by (simp add: fun_eq_iff)
    from update_history_find [of "''val_''" vr h1, unfolded dom] n2
    obtain h2 where h2: "update_history ''val_'' vr h1 = Inr h2" by auto
    show ?thesis
      by (simp add: epoch_body_def ps h1 h2 lk Let_def)
  qed
qed


text \<open>
  C10. When \<open>train\<close> returns, each of the ten history lists \<open>train_loss\<close>, ...,
  \<open>val_f1\<close> has gained exactly one value per epoch of the run, appended after its old
  content, every other entry of the history is unchanged, and, if the run had an epoch,
  the history held all ten keys at the start. If one of the ten keys is missing, the run
  has an epoch and the two passes of the first epoch succeed, \<open>train\<close> ends with the
  \<open>KeyError\<close> of the first missing key, in the order of the appends.
\<close>

theorem history_append_rule:
  "(train E st h trainset valset cfg = Inr (m, st', h', evs) \<longrightarrow>
      (k \<in> set history_keys \<and> map_of h k = Some old \<longrightarrow>
         (\<exists>new. map_of h' k = Some (old @ new) \<and> length new = length (epoch_range cfg))) \<and>
      (k \<notin> set history_keys \<longrightarrow> map_of h' k = map_of h k) \<and>
      (epoch_range cfg \<noteq> [] \<longrightarrow> list_all (\<lambda>k. map_of h k \<noteq> None) history_keys)) \<and>
   (first_missing h = Some key \<and> epoch_range cfg \<noteq> [] \<and>
    epoch_passes E trainset valset cfg st = Inr (st2, trr, vr, ev) \<longrightarrow>
      train E st h trainset valset cfg = Inl (KeyError key))"
proof (intro conjI impI)
  assume run: "train E st h trainset valset cfg = Inr (m, st', h', evs)"
  then obtain best where
    loop: "train_loop E trainset valset cfg (epoch_range cfg) ((st, h, 0), []) = Inr ((st', h', best), evs)"
    by (auto simp: train_def split: sum.splits)
  show "\<exists>new. map_of h' k = Some (old @ new) \<and> length new = length (epoch_range cfg)"
    if "k \<in> set history_keys \<and> map_of h k = Some old"
    using train_loop_history(1) [OF loop, of k old] that by blast
  show "map_of h' k = map_of h k" if "k \<notin> set history_keys"
    using train_loop_history(2) [OF loop that] .
  show "list_all (\<lambda>k. map_of h k \<noteq> None) history_keys" if ne: "epoch_range cfg \<noteq> []"
  proof -
    from ne obtain e es where r: "epoch_range cfg = e # es"
      by (cases "epoch_range cfg") auto
    from loop r obtain acc ev where
      body: "epoch_body E trainset valset cfg (st, h, 0) e = Inr (acc, ev)"
      by (auto split: sum.splits)
    obtain st2 h2 b2 where acc: "acc = (st2, h2, b2)" by (cases acc)
    from epoch_body_Inr [OF body [unfolded acc]] obtain trr vr ev0 where
      ps: "epoch_passes E trainset valset cfg st = Inr (st2, trr, vr, ev0)" by blast
    from epoch_body_missing_key(1) [OF ps, of h 0 e] body
    have "first_missing h = None"
      by (cases "first_missing h") auto
    then show ?thesis
      by (simp add: first_missing_def find_None_iff list_all_iff)
  qed
next
  assume a: "first_missing h = Some key \<and> epoch_range cfg \<noteq> [] \<and>
    epoch_passes E trainset valset cfg st = Inr (st2, trr, vr, ev)"
  then obtain e es where r: "epoch_range cfg = e # es"
    by (cases "epoch_range cfg") auto
  from a epoch_body_missing_key(1) [of E trainset valset cfg st st2 trr vr ev h 0 e]
  have "epoch_body E trainset valset cfg (st, h, 0) e = Inl (KeyError key)"
    by simp
  then show "train E st h trainset valset cfg = Inl (KeyError key)"
    by (simp add: train_def r)
qed

lemma toy_short_run_returns:
  "\<not> isl (train toy_env toy_state empty_history [(0, 0)] [(0, 1)]
            (default_config\<lparr>num_epochs := Some 3\<rparr>))"
  by code_simp

lemma toy_passes_return:
  "\<not> isl (epoch_passes toy_env [(0, 0)] [(0, 1)] (default_config\<lparr>num_epochs := Some 3\<rparr>) toy_state)"
  by code_simp

theorem history_append_rule_witness:
  "\<exists>m st' h' evs new.
     train toy_env toy_state empty_history [(0, 0)] [(0, 1)]
       (default_config\<lparr>num_epochs := Some 3\<rparr>) = Inr (m, st', h', evs) \<and>
     ''val_loss'' \<in> set history_keys \<and> map_of empty_history ''val_loss'' = Some [] \<and>
     map_of h' ''val_loss'' = Some new \<and> length new = 3 \<and>
     first_missing (butlast empty_history) = Some ''val_f1'' \<and>
     train toy_env toy_state (butlast empty_history) [(0, 0)] [(0, 1)]
       (default_config\<lparr>num_epochs := Some 3\<rparr>) = Inl (KeyError ''val_f1'')"
proof -
  obtain m st' h' evs where
    run: "train toy_env toy_state empty_history [(0, 0)] [(0, 1)]
       (default_config\<lparr>num_epochs := Some 3\<rparr>) = Inr (m, st', h', evs)"
    using toy_short_run_returns
    by (cases "train toy_env toy_state empty_history [(0, 0)] [(0, 1)]
       (default_config\<lparr>num_epochs := Some 3\<rparr>)") auto
  obtain st2 trr vr ev where
    ps: "epoch_passes toy_env [(0, 0)] [(0, 1)] (default_config\<lparr>num_epochs := Some 3\<rparr>) toy_state
          = Inr (st2, trr, vr, ev)"
    using toy_passes_return
    by (cases "epoch_passes toy_env [(0, 0)] [(0, 1)] (default_config\<lparr>num_epochs := Some 3\<rparr>) toy_state")
      auto
  have key: "''val_loss'' \<in> set history_keys \<and> map_of empty_history ''val_loss'' = Some []"
    by (simp add: empty_history_def history_keys_def)
  have rg: "epoch_range (default_config\<lparr>num_epochs := Some 3\<rparr>) = [1, 2, 3]"
    by code_simp
  have fm: "first_missing (butlast empty_history) = Some ''val_f1''"
    by (simp add: first_missing_def empty_history_def history_keys_def)
  from history_append_rule [of toy_env toy_state empty_history "[(0, 0)]" "[(0, 1)]"
      "default_config\<lparr>num_epochs := Some 3\<rparr>" m st' h' evs "''val_loss''" "[]",
      THEN conjunct1, rule_format, OF run, THEN conjunct1, rule_format, OF key]
  obtain new where new: "map_of h' ''val_loss'' = Some new" "length new = 3"
    by (auto simp: rg)
  have err: "train toy_env toy_state (butlast empty_history) [(0, 0)] [(0, 1)]
       (default_config\<lparr>num_epochs := Some 3\<rparr>) = Inl (KeyError ''val_f1'')"
    using history_append_rule [of toy_env toy_state "butlast empty_history" "[(0, 0)]" "[(0, 1)]"
      "default_config\<lparr>num_epochs := Some 3\<rparr>" _ _ _ _ _ _ "''val_f1''" st2 trr vr ev,
      THEN conjunct2, rule_format, OF conjI [OF fm conjI [OF _ ps]]]
    by (simp add: rg)
  from run key new fm err show ?thesis by blast
qed

end
